theory Spec2Isabelle
  imports Main
begin

section \<open>Strings of the program\<close>

text \<open>
  The program is TypeScript. Its strings are modelled as \<open>string\<close> (lists of
  characters), one list element per code unit, and the model covers the code units
  up to 255 (ASCII and Latin-1), which is what \<open>char\<close> holds: the whitespace class of
  the regular expression \<open>\s\<close> and lower-casing are given on that range. Lower-casing
  is the one of the root locale.
\<close>

text \<open>
  The capitals up to code unit 255 and their lower-case letters: \<open>A\<close> to \<open>Z\<close>, and
  the Latin-1 capitals U+00C0 to U+00DE without the multiplication sign U+00D7, each
  32 below its lower-case letter.
\<close>

definition upperCaseLetters :: string where
  "upperCaseLetters =
     ''ABCDEFGHIJKLMNOPQRSTUVWXYZ''
     @ [CHR 0xC0, CHR 0xC1, CHR 0xC2, CHR 0xC3, CHR 0xC4, CHR 0xC5, CHR 0xC6, CHR 0xC7,
        CHR 0xC8, CHR 0xC9, CHR 0xCA, CHR 0xCB, CHR 0xCC, CHR 0xCD, CHR 0xCE, CHR 0xCF,
        CHR 0xD0, CHR 0xD1, CHR 0xD2, CHR 0xD3, CHR 0xD4, CHR 0xD5, CHR 0xD6,
        CHR 0xD8, CHR 0xD9, CHR 0xDA, CHR 0xDB, CHR 0xDC, CHR 0xDD, CHR 0xDE]"

definition lowerCaseLetters :: string where
  "lowerCaseLetters =
     ''abcdefghijklmnopqrstuvwxyz''
     @ [CHR 0xE0, CHR 0xE1, CHR 0xE2, CHR 0xE3, CHR 0xE4, CHR 0xE5, CHR 0xE6, CHR 0xE7,
        CHR 0xE8, CHR 0xE9, CHR 0xEA, CHR 0xEB, CHR 0xEC, CHR 0xED, CHR 0xEE, CHR 0xEF,
        CHR 0xF0, CHR 0xF1, CHR 0xF2, CHR 0xF3, CHR 0xF4, CHR 0xF5, CHR 0xF6,
        CHR 0xF8, CHR 0xF9, CHR 0xFA, CHR 0xFB, CHR 0xFC, CHR 0xFD, CHR 0xFE]"

definition toLowerCase_char :: "char \<Rightarrow> char" where
  "toLowerCase_char c =
     (case map_of (zip upperCaseLetters lowerCaseLetters) c of
        Some l \<Rightarrow> l
      | None \<Rightarrow> c)"

definition toLocaleLowerCase :: "string \<Rightarrow> string" where
  "toLocaleLowerCase s = map toLowerCase_char s"

text \<open>
  \<open>\s\<close> up to code unit 255: tab, line feed, vertical tab, form feed, carriage
  return, space and the no-break space U+00A0.
\<close>

definition isSpace :: "char \<Rightarrow> bool" where
  "isSpace c =
     (c \<in> {CHR 0x09, CHR 0x0A, CHR 0x0B, CHR 0x0C, CHR 0x0D, CHR '' '', CHR 0xA0})"

text \<open>\<open>s.startsWith(p)\<close>.\<close>

definition startsWith :: "string \<Rightarrow> string \<Rightarrow> bool" where
  "startsWith s p = (take (length p) s = p)"

text \<open>\<open>xs.join(sep)\<close>.\<close>

fun join :: "string \<Rightarrow> string list \<Rightarrow> string" where
  "join sep [] = []"
| "join sep [x] = x"
| "join sep (x # y # ys) = x @ sep @ join sep (y # ys)"

text \<open>
  \<open>s.split(sep)\<close> for a separator of one character: one piece more than there are
  separators, so the empty string gives one empty piece. The generalisation to a
  predicate on the separator is used to speak about whitespace below.
\<close>

fun splitWhen :: "(char \<Rightarrow> bool) \<Rightarrow> string \<Rightarrow> string list" where
  "splitWhen P [] = [[]]"
| "splitWhen P (c # cs) =
     (if P c then [] # splitWhen P cs
      else (case splitWhen P cs of
              [] \<Rightarrow> [[c]]
            | w # ws \<Rightarrow> (c # w) # ws))"

definition split :: "char \<Rightarrow> string \<Rightarrow> string list" where
  "split sep s = splitWhen (\<lambda>c. c = sep) s"

text \<open>\<open>s.replace(/\s+/g, "-")\<close>: every maximal run of whitespace becomes one hyphen.\<close>

function (sequential) replaceWhitespaceRuns :: "string \<Rightarrow> string" where
  "replaceWhitespaceRuns [] = []"
| "replaceWhitespaceRuns (c # cs) =
     (if isSpace c then CHR ''-'' # replaceWhitespaceRuns (dropWhile isSpace cs)
      else c # replaceWhitespaceRuns cs)"
  by pat_completeness auto
termination
  by (relation "measure length") (auto simp: length_dropWhile_le less_Suc_eq_le)

section \<open>utils.ts\<close>

text \<open>
  \<^verbatim>\<open>str.charAt(0).toLocaleLowerCase() + str.slice(1)\<close>
\<close>

definition decapitalizeFirstLetter :: "string \<Rightarrow> string" where
  "decapitalizeFirstLetter str = toLocaleLowerCase (take 1 str) @ drop 1 str"

subsection \<open>wrapText\<close>

text \<open>
  The loop body of \<open>wrapText\<close>: the state is the array \<open>lines\<close> and \<open>currentLine\<close>.
  The width is a JavaScript number, modelled as an integer.
\<close>

definition wrapStep :: "int \<Rightarrow> string list \<times> string \<Rightarrow> string \<Rightarrow> string list \<times> string" where
  "wrapStep maxWidth st word =
     (case st of (lines, currentLine) \<Rightarrow>
        let spaceNeeded = (if length currentLine > 0 then 1 else 0);
            wouldExceedWidth =
              (int (length currentLine) + int (length word) + spaceNeeded > maxWidth)
        in if wouldExceedWidth then
             (if length currentLine > 0 then (lines @ [currentLine], word)
              else (lines @ [word], currentLine))
           else (lines, currentLine @ (if length currentLine > 0 then '' '' else '''') @ word))"

text \<open>The push after the loop: \<^verbatim>\<open>if (currentLine.length > 0) lines.push(currentLine)\<close>.\<close>

definition finishLines :: "string list \<times> string \<Rightarrow> string list" where
  "finishLines st =
     (case st of (lines, currentLine) \<Rightarrow>
        if length currentLine > 0 then lines @ [currentLine] else lines)"

text \<open>The array \<open>lines\<close> when the loop and the final push are done.\<close>

definition wrapLines :: "string \<Rightarrow> int \<Rightarrow> string list" where
  "wrapLines text maxWidth =
     finishLines (foldl (wrapStep maxWidth) ([], []) (split CHR '' '' text))"

definition wrapText :: "string \<Rightarrow> int \<Rightarrow> string" where
  "wrapText text maxWidth = join [CHR 0x0A] (wrapLines text maxWidth)"

text \<open>The default of the parameter \<open>maxWidth\<close>.\<close>

definition wrapText80 :: "string \<Rightarrow> string" where
  "wrapText80 text = wrapText text 80"

subsection \<open>categorizeTokenCount\<close>

text \<open>
  The object returned by \<open>categorizeTokenCount\<close>. The emoji are not ASCII and are
  named; the last tier has \<open>emoji: undefined\<close>. A field that the object literal leaves
  out is \<open>None\<close>, and for \<open>needsConfirmation\<close>, which is only tested for truth, \<open>False\<close>.
  The terminal styling of chalk is left out of the labels.
\<close>

datatype emoji = GreenCircle | YellowCircle | OrangeCircle | RedCircle

record tokenCategory =
  emoji :: "emoji option"
  label :: string
  riskDescription :: "string option"
  needsConfirmation :: bool

definition categorizeTokenCount :: "int \<Rightarrow> tokenCategory" where
  "categorizeTokenCount tokenCount =
     (if tokenCount < 5000 then
        \<lparr>emoji = Some GreenCircle, label = ''looking fresh (instant response)'',
         riskDescription = None, needsConfirmation = False\<rparr>
      else if tokenCount < 15000 then
        \<lparr>emoji = Some YellowCircle, label = ''still vibing (1-2 seconds)'',
         riskDescription = None, needsConfirmation = False\<rparr>
      else if tokenCount < 50000 then
        \<lparr>emoji = Some OrangeCircle, label = ''getting spicy (3-5 seconds)'',
         riskDescription = None, needsConfirmation = False\<rparr>
      else if tokenCount < 100000 then
        \<lparr>emoji = Some RedCircle, label = ''woah there territory (may hit rate limits)'',
         riskDescription = Some ''This will take 10+ seconds and cost significantly more.'',
         needsConfirmation = True\<rparr>
      else
        \<lparr>emoji = None, label = ''an absolute unit'',
         riskDescription = Some ''This exceeds most API limits and will be very expensive.'',
         needsConfirmation = True\<rparr>)"

text \<open>
  The risk order of the five tiers, in the order of the thresholds: the tier is read
  off the emoji of the returned object, which is different in each branch.
\<close>

definition riskTier :: "tokenCategory \<Rightarrow> nat" where
  "riskTier cat =
     (case emoji cat of
        Some GreenCircle \<Rightarrow> 0
      | Some YellowCircle \<Rightarrow> 1
      | Some OrangeCircle \<Rightarrow> 2
      | Some RedCircle \<Rightarrow> 3
      | None \<Rightarrow> 4)"

subsection \<open>extractJiraTicketId\<close>

text \<open>
  The first match of \<^verbatim>\<open>/([A-Z]{2,}-\d+)/\<close>. At a given start the greedy letters take
  the whole run of capitals, and giving one back never helps (the next character would
  be a capital, not the hyphen); the digits take the whole run of digits.
\<close>

definition isUpperAZ :: "char \<Rightarrow> bool" where
  "isUpperAZ c = (c \<in> set ''ABCDEFGHIJKLMNOPQRSTUVWXYZ'')"

definition isDigit :: "char \<Rightarrow> bool" where
  "isDigit c = (c \<in> set ''0123456789'')"

definition matchJiraAt :: "string \<Rightarrow> string option" where
  "matchJiraAt s =
     (let letters = takeWhile isUpperAZ s in
      if length letters \<ge> 2 then
        (case dropWhile isUpperAZ s of
           [] \<Rightarrow> None
         | d # ds \<Rightarrow>
             if d = CHR ''-'' \<and> takeWhile isDigit ds \<noteq> []
             then Some (letters @ ''-'' @ takeWhile isDigit ds)
             else None)
      else None)"

fun extractJiraTicketId :: "string \<Rightarrow> string option" where
  "extractJiraTicketId [] = None"
| "extractJiraTicketId (c # cs) =
     (case matchJiraAt (c # cs) of
        Some m \<Rightarrow> Some m
      | None \<Rightarrow> extractJiraTicketId cs)"

subsection \<open>buildCommitMessages\<close>

text \<open>
  One element of \<open>response.commits\<close>. \<open>scope\<close>, \<open>body\<close> and \<open>footers\<close> are optional.
\<close>

record commit =
  type :: string
  scope :: "string option"
  description :: string
  breaking :: bool
  body :: "string option"
  footers :: "string list option"
  files :: "string list"

record commitMessages =
  commitMessage :: string
  displayMessage :: string

text \<open>
  The prefix before the redundancy check:
  \<^verbatim>\<open>`${commit.type}${commit.scope?.length ? `(${commit.scope})` : ""}${commit.breaking ? "!" : ""}`\<close>
\<close>

definition conventionalPrefix :: "commit \<Rightarrow> string" where
  "conventionalPrefix c =
     type c
     @ (case scope c of
          None \<Rightarrow> ''''
        | Some sc \<Rightarrow> if length sc > 0 then ''('' @ sc @ '')'' else '''')
     @ (if breaking c then ''!'' else '''')"

text \<open>
  \<open>jiraTicketId\<close> is an optional string tested for truth (\<open>if (jiraTicketId)\<close>), so
  the empty string counts as none.
\<close>

definition truthy :: "string option \<Rightarrow> bool" where
  "truthy v = (case v of None \<Rightarrow> False | Some t \<Rightarrow> t \<noteq> [])"

text \<open>\<open>chalk.bold\<close> only styles the display message and is left out.\<close>

definition buildCommitMessages :: "commit \<Rightarrow> string option \<Rightarrow> commitMessages" where
  "buildCommitMessages c jiraTicketId =
     (let description = decapitalizeFirstLetter (description c) in
      if truthy jiraTicketId then
        (let jiraType = type c @ (if breaking c then ''!'' else '''');
             jiraDescription = replaceWhitespaceRuns description;
             fullJiraMessage = the jiraTicketId @ ''-'' @ jiraType @ ''-'' @ jiraDescription
         in \<lparr>commitMessage = fullJiraMessage, displayMessage = fullJiraMessage\<rparr>)
      else
        (let prefix0 = conventionalPrefix c;
             prefix = (if startsWith description prefix0 then [] else prefix0)
         in \<lparr>commitMessage = (if prefix \<noteq> [] then prefix @ '': '' else '''') @ description,
             displayMessage = (if prefix \<noteq> [] then prefix @ '': '' else '''') @ description\<rparr>))"

section \<open>The run (main)\<close>

subsection \<open>Command line, collaborators and the state of a run\<close>

record options =
  silent :: bool
  yes :: bool
  force :: bool
  unsafe :: bool
  push :: bool
  pr :: bool
  jira :: bool
  thinking :: bool
  history :: bool

type_synonym error = string

text \<open>The fields of the status object that \<open>main\<close> reads.\<close>

record statusResult =
  isClean :: bool
  conflicted :: "string list"
  staged :: "string list"

text \<open>
  What the user and the version-control system do with one proposal: the answer to
  "Ship it?", and the error of \<open>git.add\<close> and of \<open>git.commit\<close> if they throw.
\<close>

record reaction =
  shipIt :: bool
  addError :: "error option"
  commitError :: "error option"

text \<open>
  One step of the element stream: a response with its commits, each paired with the
  reaction it will meet, or an error thrown by the stream.
\<close>

datatype streamItem = Response "(commit \<times> reaction) list" | StreamError error

text \<open>
  Everything outside the program that decides a run: what each collaborator returns
  or throws (\<open>Inl\<close> and \<open>Some\<close> carry the error), the token count of the prompt, the
  answer to the token confirmation, and the element stream.
\<close>

record world =
  providerConfigured :: bool
  checkIsRepo :: "error + bool"
  currentBranch :: "error + string"
  gitStatus :: "error + statusResult"
  gitDiffSummary :: "error option"
  gitDiff :: "error option"
  gitLog :: "error option"
  promptTokens :: int
  burnTokens :: bool
  streamObjectError :: "error option"
  elementStream :: "streamItem list"
  pullRequestError :: "error option"
  pushError :: "error option"

text \<open>The calls to collaborators that a run makes, in order.\<close>

datatype event =
    GitCheckIsRepo
  | GitRevparse
  | GitStatus "string list"
  | GitDiffSummary "string list"
  | GitDiff "string list"
  | GitLog
  | AskBurnTokens
  | StreamObject
  | AskShipIt string
  | GitAdd "string list"
  | GitCommit string "string list"
  | HandlePullRequest
  | HandlePush

text \<open>
  The state of a run: the calls made so far, the commits created in the repository
  (message and files of every \<open>git.commit\<close> that returned) and the variable
  \<open>commitCount\<close>.
\<close>

record runState =
  trace :: "event list"
  repoCommits :: "(string \<times> string list) list"
  commitCount :: nat

datatype outcome = Exit int runState | Continue runState

definition andThen :: "outcome \<Rightarrow> (runState \<Rightarrow> outcome) \<Rightarrow> outcome" where
  "andThen r f = (case r of Exit code s \<Rightarrow> Exit code s | Continue s \<Rightarrow> f s)"

definition call :: "event \<Rightarrow> runState \<Rightarrow> runState" where
  "call e s = s\<lparr>trace := trace s @ [e]\<rparr>"

subsection \<open>Before the stream (lines 62 to 268)\<close>

definition detectProvider :: "world \<Rightarrow> runState \<Rightarrow> outcome" where
  "detectProvider w s = (if providerConfigured w then Continue s else Exit 1 s)"

definition checkRepository :: "world \<Rightarrow> runState \<Rightarrow> outcome" where
  "checkRepository w s =
     (case checkIsRepo w of
        Inl e \<Rightarrow> Exit 1 (call GitCheckIsRepo s)
      | Inr isRepo \<Rightarrow>
          if \<not> isRepo then Exit 1 (call GitCheckIsRepo s)
          else Continue (call GitCheckIsRepo s))"

text \<open>The Jira ticket of the run; an error of \<open>git.revparse\<close> is logged and ignored.\<close>

definition jiraTicketOf :: "options \<Rightarrow> world \<Rightarrow> string option" where
  "jiraTicketOf opts w =
     (if jira opts then
        (case currentBranch w of
           Inl e \<Rightarrow> None
         | Inr branch \<Rightarrow> extractJiraTicketId branch)
      else None)"

definition readJira :: "options \<Rightarrow> runState \<Rightarrow> outcome" where
  "readJira opts s = Continue (if jira opts then call GitRevparse s else s)"

definition collectChanges :: "string list \<Rightarrow> world \<Rightarrow> runState \<Rightarrow> outcome" where
  "collectChanges args w s =
     (let s1 = call (GitStatus args) s in
      case gitStatus w of
        Inl e \<Rightarrow> Exit 1 s1
      | Inr status \<Rightarrow>
          if isClean status then Exit 0 s1
          else if length (conflicted status) > 0 then Exit 1 s1
          else if length args > 0 \<and> length (staged status) > 0 then Exit 1 s1
          else
            (let s2 = call (GitDiffSummary args) s1 in
             case gitDiffSummary w of
               Some e \<Rightarrow> Exit 1 s2
             | None \<Rightarrow>
                 (let s3 = call (GitDiff args) s2 in
                  case gitDiff w of
                    Some e \<Rightarrow> Exit 1 s3
                  | None \<Rightarrow> Continue s3)))"

text \<open>An error of \<open>git.log\<close> is a warning only.\<close>

definition fetchHistory :: "options \<Rightarrow> runState \<Rightarrow> outcome" where
  "fetchHistory opts s = Continue (if history opts then call GitLog s else s)"

definition tokenSafety :: "options \<Rightarrow> world \<Rightarrow> runState \<Rightarrow> outcome" where
  "tokenSafety opts w s =
     (let category = categorizeTokenCount (promptTokens w) in
      if needsConfirmation category \<and> \<not> unsafe opts then
        (if \<not> burnTokens w then Exit 0 (call AskBurnTokens s)
         else Continue (call AskBurnTokens s))
      else Continue s)"

definition openStream :: "world \<Rightarrow> runState \<Rightarrow> outcome" where
  "openStream w s =
     (case streamObjectError w of
        Some e \<Rightarrow> Exit 1 (call StreamObject s)
      | None \<Rightarrow> Continue (call StreamObject s))"

subsection \<open>The commit loop (lines 273 to 358)\<close>

text \<open>
  The message given to \<open>git.commit\<close> (lines 317 to 320), from the commit and the
  \<open>commitMessage\<close> of \<open>buildCommitMessages\<close>; \<open>commit.body?.length\<close> and
  \<open>commit.footers?.length\<close> hold when the field is there and not empty.
\<close>

definition persistedMessage :: "commit \<Rightarrow> string \<Rightarrow> string" where
  "persistedMessage c subject =
     (let message = subject;
          message = (case body c of
                       None \<Rightarrow> message
                     | Some b \<Rightarrow>
                         if length b > 0 then message @ [CHR 0x0A, CHR 0x0A] @ b else message);
          message = (case footers c of
                       None \<Rightarrow> message
                     | Some fs \<Rightarrow>
                         if length fs > 0 then message @ [CHR 0x0A, CHR 0x0A] @ join [CHR 0x0A] fs
                         else message)
      in message)"

text \<open>The body as it is logged before the confirmation (lines 291 to 295).\<close>

definition displayedBody :: "commit \<Rightarrow> string option" where
  "displayedBody c =
     (case body c of
        None \<Rightarrow> None
      | Some b \<Rightarrow> if length b > 0 then Some (wrapText80 b) else None)"

text \<open>The body of the inner loop, for one commit of a response.\<close>

definition applyCommit :: "string option \<Rightarrow> runState \<Rightarrow> commit \<times> reaction \<Rightarrow> outcome" where
  "applyCommit jiraTicketId s p =
     (case p of (c, r) \<Rightarrow>
        let msgs = buildCommitMessages c jiraTicketId;
            s1 = call (AskShipIt (displayMessage msgs)) s
        in if shipIt r then
             (let message = persistedMessage c (commitMessage msgs);
                  s2 = call (GitAdd (files c)) s1
              in case addError r of
                   Some e \<Rightarrow> Exit 1 s2
                 | None \<Rightarrow>
                     (let s3 = call (GitCommit message (files c)) s2 in
                      case commitError r of
                        Some e \<Rightarrow> Exit 1 s3
                      | None \<Rightarrow>
                          Continue (s3\<lparr>repoCommits := repoCommits s3 @ [(message, files c)],
                                       commitCount := commitCount s3 + 1\<rparr>)))
           else Continue s1)"

fun processCommits :: "string option \<Rightarrow> runState \<Rightarrow> (commit \<times> reaction) list \<Rightarrow> outcome" where
  "processCommits j s [] = Continue s"
| "processCommits j s (p # ps) =
     (case applyCommit j s p of
        Exit code s' \<Rightarrow> Exit code s'
      | Continue s' \<Rightarrow> processCommits j s' ps)"

fun processStream :: "string option \<Rightarrow> runState \<Rightarrow> streamItem list \<Rightarrow> outcome" where
  "processStream j s [] = Continue s"
| "processStream j s (StreamError e # rest) = Exit 1 s"
| "processStream j s (Response cs # rest) =
     (case processCommits j s cs of
        Exit code s' \<Rightarrow> Exit code s'
      | Continue s' \<Rightarrow> processStream j s' rest)"

subsection \<open>After the loop (lines 360 to 390)\<close>

definition postCommit :: "options \<Rightarrow> world \<Rightarrow> runState \<Rightarrow> outcome" where
  "postCommit opts w s =
     (let offersPullRequest = (commitCount s > 0 \<and> \<not> force opts \<and> \<not> yes opts);
          s1 = (if offersPullRequest then call HandlePullRequest s else s)
      in if offersPullRequest \<and> pullRequestError w \<noteq> None then Exit 1 s1
         else
           (let s2 = (if push opts then call HandlePush s1 else s1)
            in if push opts \<and> pushError w \<noteq> None then Exit 1 s2
               else Continue s2))"

subsection \<open>main\<close>

definition initialState :: runState where
  "initialState = \<lparr>trace = [], repoCommits = [], commitCount = 0\<rparr>"

text \<open>
  \<open>main\<close> up to the stream, and as a whole: the exit code and the final state. When
  \<open>main\<close> returns the process ends with code 0, as it does through
  \<open>process.exit(0)\<close> when no commit was made.
\<close>

definition beforeStream :: "string list \<Rightarrow> options \<Rightarrow> world \<Rightarrow> outcome" where
  "beforeStream args opts w =
     andThen (andThen (andThen (andThen (andThen (andThen
       (detectProvider w initialState)
       (checkRepository w))
       (readJira opts))
       (collectChanges args w))
       (fetchHistory opts))
       (tokenSafety opts w))
       (openStream w)"

definition main :: "string list \<Rightarrow> options \<Rightarrow> world \<Rightarrow> int \<times> runState" where
  "main args opts w =
     (case andThen (andThen
             (beforeStream args opts w)
             (\<lambda>s. processStream (jiraTicketOf opts w) s (elementStream w)))
             (postCommit opts w) of
        Exit code s \<Rightarrow> (code, s)
      | Continue s \<Rightarrow> (0, s))"

text \<open>The state in which a step ended, whether the run goes on or not.\<close>

fun finalState :: "outcome \<Rightarrow> runState" where
  "finalState (Exit code s) = s"
| "finalState (Continue s) = s"

section \<open>Notions of the specification\<close>

text \<open>
  Whitespace-normalised text, as the specification's round-trip property of
  \<open>wrapText\<close> speaks of it: the words of the text (its maximal runs of characters
  that are not whitespace) joined by single spaces. Neither is a function of the
  program.
\<close>

definition spec_words :: "string \<Rightarrow> string list" where
  "spec_words s = filter (\<lambda>w. w \<noteq> []) (splitWhen isSpace s)"

definition spec_normalizeWhitespace :: "string \<Rightarrow> string" where
  "spec_normalizeWhitespace s = join '' '' (spec_words s)"

text \<open>
  The description of the Jira format as the specification words it: the runs of
  whitespace inside the text become one hyphen each, that is the words of the text
  joined by hyphens, and whitespace at the start and at the end stays as it is. It
  is not a function of the program.
\<close>

definition spec_collapseInternalWhitespace :: "string \<Rightarrow> string" where
  "spec_collapseInternalWhitespace d =
     takeWhile isSpace d
     @ join ''-'' (spec_words d)
     @ rev (takeWhile isSpace (rev (dropWhile isSpace d)))"

text \<open>The proposals of a stream in the order of the stream, up to its first error.\<close>

fun proposalsOf :: "streamItem list \<Rightarrow> (commit \<times> reaction) list" where
  "proposalsOf [] = []"
| "proposalsOf (Response cs # rest) = cs @ proposalsOf rest"
| "proposalsOf (StreamError e # rest) = []"

text \<open>The commit that an applied proposal creates: its message and its files.\<close>

definition committedAs :: "string option \<Rightarrow> commit \<times> reaction \<Rightarrow> string \<times> string list" where
  "committedAs j p =
     (persistedMessage (fst p) (commitMessage (buildCommitMessages (fst p) j)), files (fst p))"

text \<open>
  The calls of the commit loop, and the state of a run that has not reached the
  loop: nothing committed, the counter at 0, and no call of the loop or of the
  post-commit stage made.
\<close>

fun loopEvent :: "event \<Rightarrow> bool" where
  "loopEvent (AskShipIt d) = True"
| "loopEvent (GitAdd fs) = True"
| "loopEvent (GitCommit m fs) = True"
| "loopEvent e = False"

definition preparing :: "runState \<Rightarrow> bool" where
  "preparing s =
     (repoCommits s = [] \<and> commitCount s = 0
      \<and> list_all (\<lambda>e. \<not> loopEvent e \<and> e \<noteq> HandlePullRequest \<and> e \<noteq> HandlePush) (trace s))"

section \<open>Example runs\<close>

text \<open>
  A world in which everything before the stream succeeds (a repository on branch
  \<open>main\<close> with unstaged changes, a small prompt) and the post-commit helpers do
  not fail; the command line without any option; two proposals; the reactions to a
  proposal.
\<close>

definition readyWorld :: "streamItem list \<Rightarrow> world" where
  "readyWorld items =
     \<lparr>providerConfigured = True, checkIsRepo = Inr True, currentBranch = Inr ''main'',
      gitStatus = Inr \<lparr>isClean = False, conflicted = [], staged = []\<rparr>,
      gitDiffSummary = None, gitDiff = None, gitLog = None,
      promptTokens = 1200, burnTokens = True, streamObjectError = None,
      elementStream = items, pullRequestError = None, pushError = None\<rparr>"

definition noOptions :: options where
  "noOptions =
     \<lparr>silent = False, yes = False, force = False, unsafe = False, push = False,
      pr = False, jira = False, thinking = False, history = False\<rparr>"

definition featCommit :: commit where
  "featCommit =
     \<lparr>type = ''feat'', scope = Some ''cli'', description = ''Add the push flag'',
      breaking = False, body = None, footers = None, files = [''index.ts'']\<rparr>"

definition fixCommit :: commit where
  "fixCommit =
     \<lparr>type = ''fix'', scope = None, description = ''Handle an empty diff'',
      breaking = False, body = Some ''The summary was read before the check.'',
      footers = None, files = [''utils.ts'', ''index.ts'']\<rparr>"

definition accepts :: reaction where
  "accepts = \<lparr>shipIt = True, addError = None, commitError = None\<rparr>"

definition declines :: reaction where
  "declines = \<lparr>shipIt = False, addError = None, commitError = None\<rparr>"

definition commitFails :: reaction where
  "commitFails = \<lparr>shipIt = True, addError = None, commitError = Some ''nothing to commit''\<rparr>"

section \<open>Properties of the string functions\<close>

lemma splitWhen_not_Nil: "splitWhen P s \<noteq> []"
  by (induction s) (auto split: list.splits)

lemma decapitalizeFirstLetter_Nil: "decapitalizeFirstLetter [] = []"
  by (simp add: decapitalizeFirstLetter_def toLocaleLowerCase_def)

lemma decapitalizeFirstLetter_Cons: "decapitalizeFirstLetter (x # xs) = toLowerCase_char x # xs"
  by (simp add: decapitalizeFirstLetter_def toLocaleLowerCase_def)

lemma decapitalizeFirstLetter_append:
  "p \<noteq> [] \<Longrightarrow> decapitalizeFirstLetter (p @ d) = decapitalizeFirstLetter p @ d"
  by (cases p) (simp_all add: decapitalizeFirstLetter_Cons)

lemma buildCommitMessages_conventional:
  "\<not> truthy j \<Longrightarrow>
   buildCommitMessages c j =
     (let d = decapitalizeFirstLetter (description c); s = (if startsWith d (conventionalPrefix c) then d else conventionalPrefix c @ '': '' @ d)
      in \<lparr>commitMessage = s, displayMessage = s\<rparr>)"
  by (auto simp: buildCommitMessages_def Let_def startsWith_def)

lemma buildCommitMessages_jira:
  "t \<noteq> [] \<Longrightarrow>
   buildCommitMessages c (Some t) =
     (let s = t @ ''-'' @ type c @ (if breaking c then ''!'' else '''') @ ''-''
              @ replaceWhitespaceRuns (decapitalizeFirstLetter (description c))
      in \<lparr>commitMessage = s, displayMessage = s\<rparr>)"
  by (simp add: buildCommitMessages_def Let_def truthy_def)

lemma dropWhile_append_nonspace:
  "cs \<noteq> [] \<Longrightarrow> \<not> isSpace (last cs) \<Longrightarrow> dropWhile isSpace (cs @ x) = dropWhile isSpace cs @ x"
  by (rule dropWhile_append1[of "last cs"]) auto

lemma replaceWhitespaceRuns_append:
  "u = [] \<or> \<not> isSpace (last u) \<Longrightarrow>
   replaceWhitespaceRuns (u @ x) = replaceWhitespaceRuns u @ replaceWhitespaceRuns x"
proof (induction u rule: replaceWhitespaceRuns.induct)
  case 1
  then show ?case by simp
next
  case (2 c cs)
  show ?case
  proof (cases "isSpace c")
    case True
    with 2 have ne: "cs \<noteq> []" and l: "\<not> isSpace (last cs)" by (auto split: if_splits)
    have d: "dropWhile isSpace (cs @ x) = dropWhile isSpace cs @ x"
      using ne l by (rule dropWhile_append_nonspace)
    have dn: "dropWhile isSpace cs \<noteq> []" using ne l
      by (metis dropWhile_eq_Nil_conv last_in_set)
    have "last (dropWhile isSpace cs) = last cs"
      using dn by (metis append_Nil2 last_appendR takeWhile_dropWhile_id)
    with 2 True l dn d show ?thesis by simp
  next
    case False
    with 2 show ?thesis by (cases cs) (auto split: if_splits)
  qed
qed

lemma replaceWhitespaceRuns_run:
  "ws \<noteq> [] \<Longrightarrow> \<forall>x\<in>set ws. isSpace x \<Longrightarrow> v = [] \<or> \<not> isSpace (hd v) \<Longrightarrow>
   replaceWhitespaceRuns (ws @ v) = CHR ''-'' # replaceWhitespaceRuns v"
proof (cases ws)
  case Nil
  assume "ws \<noteq> []" with Nil show ?thesis by simp
next
  case (Cons c cs)
  assume a: "\<forall>x\<in>set ws. isSpace x" and v: "v = [] \<or> \<not> isSpace (hd v)"
  have "dropWhile isSpace (cs @ v) = dropWhile isSpace v"
    using a Cons by (simp add: dropWhile_append2)
  also have "\<dots> = v" using v by (cases v) auto
  finally show ?thesis using a Cons by simp
qed

lemma replaceWhitespaceRuns_id:
  "\<forall>x\<in>set w. \<not> isSpace x \<Longrightarrow> replaceWhitespaceRuns w = w"
  by (induction w) auto

section \<open>Properties of wrapText\<close>

lemma join_Cons: "xs \<noteq> [] \<Longrightarrow> join sep (x # xs) = x @ sep @ join sep xs"
  by (cases xs) simp_all

lemma join_append:
  "xs \<noteq> [] \<Longrightarrow> ys \<noteq> [] \<Longrightarrow> join sep (xs @ ys) = join sep xs @ sep @ join sep ys"
  by (induction sep xs rule: join.induct) (simp_all add: join_Cons)

lemma join_merge:
  "join sep (as @ (a @ sep @ b) # bs) = join sep (as @ a # b # bs)"
proof (cases "as = []")
  case True
  then show ?thesis by (cases bs) simp_all
next
  case False
  have "join sep ((a @ sep @ b) # bs) = join sep (a # b # bs)"
    by (cases bs) simp_all
  then show ?thesis using False by (simp add: join_append)
qed

lemma splitWhen_append:
  "P c \<Longrightarrow> splitWhen P (a @ c # b) = splitWhen P a @ splitWhen P b"
proof (induction a)
  case Nil
  then show ?case by simp
next
  case (Cons x a)
  then show ?case
    by (cases "splitWhen P a") (simp_all add: splitWhen_not_Nil)
qed

lemma join_split: "join [sep] (split sep s) = s"
  unfolding split_def
proof (induction s)
  case Nil
  then show ?case by simp
next
  case (Cons c cs)
  show ?case
  proof (cases "c = sep")
    case True
    then show ?thesis using Cons by (simp add: join_Cons splitWhen_not_Nil)
  next
    case False
    obtain w ws where w: "splitWhen (\<lambda>c. c = sep) cs = w # ws"
      by (cases "splitWhen (\<lambda>c. c = sep) cs") (simp_all add: splitWhen_not_Nil)
    have "join [sep] ((c # w) # ws) = c # join [sep] (w # ws)"
      by (cases ws) simp_all
    then show ?thesis using False Cons w by simp
  qed
qed

lemma spec_words_Nil: "spec_words [] = []"
  by (simp add: spec_words_def)

lemma spec_words_append:
  "isSpace c \<Longrightarrow> spec_words (a @ c # b) = spec_words a @ spec_words b"
  by (simp add: spec_words_def splitWhen_append)

lemma spec_words_join:
  "isSpace c \<Longrightarrow> spec_words (join [c] ws) = concat (map spec_words ws)"
proof (induction "[c]" ws rule: join.induct)
  case 1
  then show ?case by (simp add: spec_words_Nil)
next
  case (2 x)
  then show ?case by simp
next
  case (3 x y ys)
  then show ?case using spec_words_append[of c x "join [c] (y # ys)"] by simp
qed

lemma isSpace_space: "isSpace CHR '' ''"
  by (simp add: isSpace_def)

lemma isSpace_newline: "isSpace (CHR 0x0A)"
  by (simp add: isSpace_def)

lemma spec_words_split: "concat (map spec_words (split CHR '' '' s)) = spec_words s"
  using spec_words_join[OF isSpace_space, of "split CHR '' '' s"] 
  by (simp add: join_split[where sep = "CHR '' ''"])

lemma wrapStep_words:
  "wrapStep w (ls, cur) word = (ls', cur') \<Longrightarrow>
   concat (map spec_words ls') @ spec_words cur'
     = concat (map spec_words ls) @ spec_words cur @ spec_words word"
  using spec_words_append[OF isSpace_space, of cur word]
  by (auto simp: wrapStep_def Let_def spec_words_Nil split: if_splits)

lemma foldl_wrapStep_words:
  "foldl (wrapStep w) (ls, cur) ws = (ls', cur') \<Longrightarrow>
   concat (map spec_words ls') @ spec_words cur'
     = concat (map spec_words ls) @ spec_words cur @ concat (map spec_words ws)"
proof (induction ws arbitrary: ls cur)
  case Nil
  then show ?case by simp
next
  case (Cons x xs)
  obtain l1 c1 where s: "wrapStep w (ls, cur) x = (l1, c1)" by (cases "wrapStep w (ls, cur) x")
  from Cons.prems s have "foldl (wrapStep w) (l1, c1) xs = (ls', cur')" by simp
  from Cons.IH[OF this] wrapStep_words[OF s] show ?case by simp
qed

lemma finishLines_words:
  "concat (map spec_words (finishLines (ls, cur))) = concat (map spec_words ls) @ spec_words cur"
  by (simp add: finishLines_def spec_words_Nil)

lemma wrapLines_words: "concat (map spec_words (wrapLines text w)) = spec_words text"
proof -
  obtain ls cur where f: "foldl (wrapStep w) ([], []) (split CHR '' '' text) = (ls, cur)"
    by (cases "foldl (wrapStep w) ([], []) (split CHR '' '' text)")
  from foldl_wrapStep_words[OF f] show ?thesis
    by (simp add: wrapLines_def f finishLines_words spec_words_Nil spec_words_split)
qed

lemma wrapLines_normalized:
  "spec_normalizeWhitespace (join '' '' (wrapLines text w)) = spec_normalizeWhitespace text"
  using spec_words_join[OF isSpace_space, of "wrapLines text w"]
  by (simp add: spec_normalizeWhitespace_def wrapLines_words)

lemma wrapText_normalized:
  "spec_normalizeWhitespace (wrapText text w) = spec_normalizeWhitespace text"
  using spec_words_join[OF isSpace_newline, of "wrapLines text w"]
  by (simp add: spec_normalizeWhitespace_def wrapLines_words wrapText_def)

lemma wrapStep_rejoin:
  assumes "word \<noteq> []"
  shows "join '' '' (finishLines (wrapStep w (ls, cur) word) @ rest)
           = join '' '' (finishLines (ls, cur) @ word # rest)"
proof (cases "cur = [] \<or> int (length cur) + int (length word) + 1 > w")
  case True
  then show ?thesis using assms
    by (auto simp: wrapStep_def finishLines_def Let_def)
next
  case False
  then have "wrapStep w (ls, cur) word = (ls, cur @ '' '' @ word)"
    by (auto simp: wrapStep_def Let_def)
  then show ?thesis using False join_merge[of "'' ''" ls cur word rest]
    by (simp add: finishLines_def)
qed

lemma foldl_wrapStep_rejoin:
  "[] \<notin> set ws \<Longrightarrow>
   join '' '' (finishLines (foldl (wrapStep w) (ls, cur) ws))
     = join '' '' (finishLines (ls, cur) @ ws)"
proof (induction ws arbitrary: ls cur)
  case Nil
  then show ?case by simp
next
  case (Cons x xs)
  obtain l1 c1 where s: "wrapStep w (ls, cur) x = (l1, c1)"
    by (cases "wrapStep w (ls, cur) x")
  have x: "x \<noteq> []" and xs: "[] \<notin> set xs" using Cons.prems by auto
  have "join '' '' (finishLines (foldl (wrapStep w) (l1, c1) xs))
          = join '' '' (finishLines (l1, c1) @ xs)"
    using Cons.IH[OF xs] .
  also have "\<dots> = join '' '' (finishLines (ls, cur) @ x # xs)"
    using wrapStep_rejoin[OF x, of w ls cur xs] by (simp add: s)
  finally show ?case by (simp add: s)
qed

lemma wrapLines_rejoin:
  "[] \<notin> set (split CHR '' '' text) \<Longrightarrow> join '' '' (wrapLines text w) = text"
  using foldl_wrapStep_rejoin[of "split CHR '' '' text" w "[]" "[]"]
  by (simp add: wrapLines_def finishLines_def join_split[where sep = "CHR '' ''", simplified])

lemma wrapStep_width:
  assumes "wrapStep w (ls, cur) word = (ls', cur')"
    and "\<forall>l\<in>set ls. int (length l) \<le> w \<or> l \<in> W"
    and "cur = [] \<or> int (length cur) \<le> w \<or> cur \<in> W"
    and "word \<in> W"
  shows "(\<forall>l\<in>set ls'. int (length l) \<le> w \<or> l \<in> W)
         \<and> (cur' = [] \<or> int (length cur') \<le> w \<or> cur' \<in> W)"
  using assms by (auto simp: wrapStep_def Let_def split: if_splits)

lemma foldl_wrapStep_width:
  "foldl (wrapStep w) (ls, cur) ws = (ls', cur') \<Longrightarrow>
   \<forall>l\<in>set ls. int (length l) \<le> w \<or> l \<in> W \<Longrightarrow>
   cur = [] \<or> int (length cur) \<le> w \<or> cur \<in> W \<Longrightarrow>
   set ws \<subseteq> W \<Longrightarrow>
   (\<forall>l\<in>set ls'. int (length l) \<le> w \<or> l \<in> W)
     \<and> (cur' = [] \<or> int (length cur') \<le> w \<or> cur' \<in> W)"
proof (induction ws arbitrary: ls cur)
  case Nil
  then show ?case by simp
next
  case (Cons x xs)
  obtain l1 c1 where s: "wrapStep w (ls, cur) x = (l1, c1)"
    by (cases "wrapStep w (ls, cur) x")
  have x: "x \<in> W" and xs: "set xs \<subseteq> W" using Cons.prems(4) by auto
  have f: "foldl (wrapStep w) (l1, c1) xs = (ls', cur')" using Cons.prems(1) s by simp
  from wrapStep_width[OF s Cons.prems(2) Cons.prems(3) x]
  have a: "\<forall>l\<in>set l1. int (length l) \<le> w \<or> l \<in> W"
    and b: "c1 = [] \<or> int (length c1) \<le> w \<or> c1 \<in> W" by blast+
  show ?case by (rule Cons.IH[OF f a b xs])
qed

lemma wrapLines_width:
  "l \<in> set (wrapLines text w) \<Longrightarrow> int (length l) \<le> w \<or> l \<in> set (split CHR '' '' text)"
proof -
  assume l: "l \<in> set (wrapLines text w)"
  obtain ls cur where f: "foldl (wrapStep w) ([], []) (split CHR '' '' text) = (ls, cur)"
    by (cases "foldl (wrapStep w) ([], []) (split CHR '' '' text)")
  have "(\<forall>l\<in>set ls. int (length l) \<le> w \<or> l \<in> set (split CHR '' '' text))
     \<and> (cur = [] \<or> int (length cur) \<le> w \<or> cur \<in> set (split CHR '' '' text))"
    by (rule foldl_wrapStep_width[OF f]) simp_all
  then show ?thesis using l by (auto simp: wrapLines_def f finishLines_def split: if_splits)
qed

lemma splitWhen_pieces: "x \<in> set (splitWhen P s) \<Longrightarrow> \<forall>c\<in>set x. \<not> P c"
proof (induction s arbitrary: x)
  case Nil
  then show ?case by simp
next
  case (Cons c cs)
  then show ?case
    by (cases "splitWhen P cs") (force split: if_splits)+
qed

lemma split_word_no_sep: "x \<in> set (split sep s) \<Longrightarrow> sep \<notin> set x"
  using splitWhen_pieces[of x "\<lambda>c. c = sep" s] by (auto simp: split_def)

text \<open>
  On a text without whitespace at either end, replacing the runs of whitespace by
  hyphens joins the words of the text by hyphens.
\<close>

lemma splitWhen_none: "\<forall>c\<in>set w. \<not> P c \<Longrightarrow> splitWhen P w = [w]"
  by (induction w) simp_all

lemma spec_words_word:
  "w \<noteq> [] \<Longrightarrow> \<forall>c\<in>set w. \<not> isSpace c \<Longrightarrow> spec_words w = [w]"
  by (simp add: spec_words_def splitWhen_none)

lemma spec_words_spaces:
  "\<forall>c\<in>set ws. isSpace c \<Longrightarrow> spec_words (ws @ d) = spec_words d"
proof (induction ws)
  case Nil
  then show ?case by simp
next
  case (Cons c ws)
  then show ?case
    using spec_words_append[of c "[]" "ws @ d"] by (simp add: spec_words_Nil)
qed

lemma replaceWhitespaceRuns_Nil_iff: "replaceWhitespaceRuns d = [] \<longleftrightarrow> d = []"
  by (cases d) simp_all

lemma replaceWhitespaceRuns_words:
  "d = [] \<or> (\<not> isSpace (hd d) \<and> \<not> isSpace (last d)) \<Longrightarrow>
   replaceWhitespaceRuns d = join ''-'' (spec_words d)"
proof (induction "length d" arbitrary: d rule: less_induct)
  case less
  show ?case
  proof (cases "d = []")
    case True
    then show ?thesis by (simp add: spec_words_Nil)
  next
    case False
    with less.prems have hd: "\<not> isSpace (hd d)" and la: "\<not> isSpace (last d)" by auto
    define w where "w = takeWhile (\<lambda>c. \<not> isSpace c) d"
    define rest where "rest = dropWhile (\<lambda>c. \<not> isSpace c) d"
    have d: "d = w @ rest" by (simp add: w_def rest_def)
    have wne: "w \<noteq> []" using False hd by (cases d) (simp_all add: w_def)
    have wns: "\<forall>c\<in>set w. \<not> isSpace c" by (auto simp: w_def dest: set_takeWhileD)
    show ?thesis
    proof (cases "rest = []")
      case True
      then show ?thesis using d wne wns
        by (simp add: replaceWhitespaceRuns_id spec_words_word)
    next
      case rne: False
      define ws where "ws = takeWhile isSpace rest"
      define d' where "d' = dropWhile isSpace rest"
      have r: "rest = ws @ d'" by (simp add: ws_def d'_def)
      have hr: "isSpace (hd rest)" using rne hd_dropWhile[of "\<lambda>c. \<not> isSpace c" d]
        by (simp add: rest_def)
      have wsne: "ws \<noteq> []" using rne hr by (cases rest) (simp_all add: ws_def)
      have wss: "\<forall>c\<in>set ws. isSpace c" by (auto simp: ws_def dest: set_takeWhileD)
      have d'ne: "d' \<noteq> []"
      proof
        assume "d' = []"
        then have "last d = last ws" using d r wsne by simp
        then show False using la wss wsne last_in_set[of ws] by auto
      qed
      have hd': "\<not> isSpace (hd d')" using d'ne hd_dropWhile[of isSpace rest] by (simp add: d'_def)
      have la': "last d' = last d" using d r d'ne by simp
      have len: "length d' < length d" using d r wne by simp
      have ih: "replaceWhitespaceRuns d' = join ''-'' (spec_words d')"
        using less.hyps[OF len] hd' la la' by simp
      have swne: "spec_words d' \<noteq> []"
        using ih d'ne replaceWhitespaceRuns_Nil_iff[of d'] by (cases "spec_words d'") auto
      have lw: "\<not> isSpace (last w)" using wne wns last_in_set[of w] by auto
      have "replaceWhitespaceRuns d = replaceWhitespaceRuns w @ replaceWhitespaceRuns (ws @ d')"
        using replaceWhitespaceRuns_append[of w "ws @ d'"] lw d r by simp
      also have "\<dots> = w @ CHR ''-'' # replaceWhitespaceRuns d'"
        using replaceWhitespaceRuns_run[of ws d'] wsne wss hd' wns
        by (simp add: replaceWhitespaceRuns_id)
      finally have lhs: "replaceWhitespaceRuns d = w @ ''-'' @ join ''-'' (spec_words d')"
        using ih by simp
      obtain c ws' where c: "ws = c # ws'" using wsne by (cases ws) auto
      have "spec_words d = spec_words w @ spec_words (ws' @ d')"
        using spec_words_append[of c w "ws' @ d'"] wss c d r by simp
      also have "\<dots> = w # spec_words d'"
        using spec_words_spaces[of ws' d'] wss c wne wns by (simp add: spec_words_word)
      finally have "join ''-'' (spec_words d) = w @ ''-'' @ join ''-'' (spec_words d')"
        using swne by (simp add: join_Cons)
      with lhs show ?thesis by simp
    qed
  qed
qed

lemma replaceWhitespaceRuns_spec:
  "d = [] \<or> (\<not> isSpace (hd d) \<and> \<not> isSpace (last d)) \<Longrightarrow>
   replaceWhitespaceRuns d = spec_collapseInternalWhitespace d"
proof -
  assume a: "d = [] \<or> (\<not> isSpace (hd d) \<and> \<not> isSpace (last d))"
  have l: "takeWhile isSpace d = []" using a by (cases d) auto
  then have dr: "dropWhile isSpace d = d" using takeWhile_dropWhile_id[of isSpace d] by simp
  have t: "takeWhile isSpace (rev d) = []" using a by (cases d rule: rev_cases) auto
  show ?thesis
    using replaceWhitespaceRuns_words[OF a] by (simp add: spec_collapseInternalWhitespace_def l dr t)
qed

section \<open>One proposal\<close>

lemma persistedMessage_eq:
  "persistedMessage c subject
     = subject
       @ (case body c of
            None \<Rightarrow> []
          | Some b \<Rightarrow> if b \<noteq> [] then [CHR 0x0A, CHR 0x0A] @ b else [])
       @ (case footers c of
            None \<Rightarrow> []
          | Some fs \<Rightarrow> if fs \<noteq> [] then [CHR 0x0A, CHR 0x0A] @ join [CHR 0x0A] fs else [])"
  by (simp add: persistedMessage_def Let_def split: option.splits)

lemma applyCommit_applied:
  "shipIt r \<Longrightarrow> addError r = None \<Longrightarrow> commitError r = None \<Longrightarrow>
   applyCommit j s (c, r) =
     Continue (s\<lparr>trace := trace s @ [AskShipIt (displayMessage (buildCommitMessages c j)),
                                     GitAdd (files c),
                                     GitCommit (persistedMessage c (commitMessage (buildCommitMessages c j))) (files c)],
                 repoCommits := repoCommits s
                   @ [(persistedMessage c (commitMessage (buildCommitMessages c j)), files c)],
                 commitCount := commitCount s + 1\<rparr>)"
  by (simp add: applyCommit_def call_def Let_def)

section \<open>Properties of the run\<close>

lemma processCommits_append:
  "processCommits j s (ps @ qs) = andThen (processCommits j s ps) (\<lambda>s'. processCommits j s' qs)"
  by (induction ps arbitrary: s) (auto simp: andThen_def split: outcome.splits)

lemma processStream_append:
  "processStream j s (xs @ ys) = andThen (processStream j s xs) (\<lambda>s'. processStream j s' ys)"
  by (induction j s xs rule: processStream.induct) (auto simp: andThen_def split: outcome.splits)

text \<open>The four ways one proposal is handled.\<close>

lemma applyCommit_cases:
  "applyCommit j s (c, r) =
     (if \<not> shipIt r then
        Continue (s\<lparr>trace := trace s @ [AskShipIt (displayMessage (buildCommitMessages c j))]\<rparr>)
      else if addError r \<noteq> None then
        Exit 1 (s\<lparr>trace := trace s @ [AskShipIt (displayMessage (buildCommitMessages c j)),
                                      GitAdd (files c)]\<rparr>)
      else if commitError r \<noteq> None then
        Exit 1 (s\<lparr>trace := trace s @ [AskShipIt (displayMessage (buildCommitMessages c j)),
                                      GitAdd (files c),
                                      GitCommit (persistedMessage c (commitMessage (buildCommitMessages c j))) (files c)]\<rparr>)
      else
        Continue (s\<lparr>trace := trace s @ [AskShipIt (displayMessage (buildCommitMessages c j)),
                                     GitAdd (files c),
                                     GitCommit (persistedMessage c (commitMessage (buildCommitMessages c j))) (files c)],
                 repoCommits := repoCommits s
                   @ [(persistedMessage c (commitMessage (buildCommitMessages c j)), files c)],
                 commitCount := commitCount s + 1\<rparr>))"
  by (auto simp: applyCommit_def call_def Let_def)

lemma processCommits_Continue:
  "processCommits j s ps = Continue s' \<Longrightarrow>
   repoCommits s' = repoCommits s @ map (committedAs j) (filter (\<lambda>p. shipIt (snd p)) ps)
   \<and> commitCount s' = commitCount s + length (filter (\<lambda>p. shipIt (snd p)) ps)"
proof (induction ps arbitrary: s)
  case Nil
  then show ?case by simp
next
  case (Cons p ps)
  obtain c r where p: "p = (c, r)" by (cases p)
  from Cons.prems obtain s1 where a: "applyCommit j s (c, r) = Continue s1"
    and b: "processCommits j s1 ps = Continue s'"
    by (auto simp: p split: outcome.splits)
  from a have "repoCommits s1 = repoCommits s @ map (committedAs j) (filter (\<lambda>p. shipIt (snd p)) [p])
    \<and> commitCount s1 = commitCount s + length (filter (\<lambda>p. shipIt (snd p)) [p])"
    by (auto simp: applyCommit_cases p committedAs_def split: if_splits)
  with Cons.IH[OF b] show ?case by simp
qed

lemma processStream_Continue:
  "processStream j s items = Continue s' \<Longrightarrow>
   repoCommits s' = repoCommits s @ map (committedAs j) (filter (\<lambda>p. shipIt (snd p)) (proposalsOf items))
   \<and> commitCount s' = commitCount s + length (filter (\<lambda>p. shipIt (snd p)) (proposalsOf items))"
proof (induction j s items rule: processStream.induct)
  case (1 j s)
  then show ?case by simp
next
  case (2 j s e rest)
  then show ?case by simp
next
  case (3 j s cs rest)
  from "3.prems" obtain s1 where a: "processCommits j s cs = Continue s1"
    and b: "processStream j s1 rest = Continue s'"
    by (auto split: outcome.splits)
  from processCommits_Continue[OF a] "3.IH"[OF a b] show ?case by simp
qed

lemma applyCommit_counter:
  "commitCount (finalState (applyCommit j s p)) + length (repoCommits s)
     = commitCount s + length (repoCommits (finalState (applyCommit j s p)))"
  by (cases p) (simp add: applyCommit_cases)

lemma processCommits_counter:
  "commitCount (finalState (processCommits j s ps)) + length (repoCommits s)
     = commitCount s + length (repoCommits (finalState (processCommits j s ps)))"
proof (induction ps arbitrary: s)
  case Nil
  then show ?case by simp
next
  case (Cons p ps)
  show ?case
  proof (cases "applyCommit j s p")
    case (Exit code s1)
    then show ?thesis using applyCommit_counter[of j s p] by simp
  next
    case (Continue s1)
    then show ?thesis using applyCommit_counter[of j s p] Cons.IH[of s1] by simp
  qed
qed

lemma processStream_counter:
  "commitCount (finalState (processStream j s items)) + length (repoCommits s)
     = commitCount s + length (repoCommits (finalState (processStream j s items)))"
proof (induction j s items rule: processStream.induct)
  case (1 j s)
  then show ?case by simp
next
  case (2 j s e rest)
  then show ?case by simp
next
  case (3 j s cs rest)
  show ?case
  proof (cases "processCommits j s cs")
    case (Exit code s1)
    then show ?thesis using processCommits_counter[of j s cs] by simp
  next
    case (Continue s1)
    then show ?thesis using processCommits_counter[of j s cs] "3.IH"[OF Continue] by simp
  qed
qed

lemmas run_defs =
  main_def beforeStream_def andThen_def detectProvider_def checkRepository_def
  readJira_def collectChanges_def fetchHistory_def tokenSafety_def openStream_def postCommit_def
  jiraTicketOf_def initialState_def call_def categorizeTokenCount_def applyCommit_def
  buildCommitMessages_def truthy_def conventionalPrefix_def startsWith_def
  decapitalizeFirstLetter_def toLocaleLowerCase_def toLowerCase_char_def upperCaseLetters_def lowerCaseLetters_def persistedMessage_def
  committedAs_def Let_def

lemmas example_defs =
  readyWorld_def noOptions_def featCommit_def fixCommit_def accepts_def declines_def
  commitFails_def

text \<open>Before the stream nothing is committed and no call of the loop is made.\<close>

lemma preparing_initialState: "preparing initialState"
  by (simp add: preparing_def initialState_def)

lemma preparing_call:
  "preparing s \<Longrightarrow> \<not> loopEvent e \<Longrightarrow> e \<noteq> HandlePullRequest \<Longrightarrow> e \<noteq> HandlePush \<Longrightarrow>
   preparing (call e s)"
  by (simp add: preparing_def call_def)

lemma preparing_andThen:
  "preparing (finalState r) \<Longrightarrow> (\<And>s. preparing s \<Longrightarrow> preparing (finalState (f s))) \<Longrightarrow>
   preparing (finalState (andThen r f))"
  by (cases r) (simp_all add: andThen_def)

lemma preparing_detectProvider: "preparing s \<Longrightarrow> preparing (finalState (detectProvider w s))"
  by (simp add: detectProvider_def)

lemma preparing_checkRepository: "preparing s \<Longrightarrow> preparing (finalState (checkRepository w s))"
  by (auto simp: checkRepository_def preparing_call split: sum.splits)

lemma preparing_readJira: "preparing s \<Longrightarrow> preparing (finalState (readJira opts s))"
  by (simp add: readJira_def preparing_call)

lemma preparing_collectChanges: "preparing s \<Longrightarrow> preparing (finalState (collectChanges args w s))"
  by (auto simp: collectChanges_def Let_def preparing_call split: sum.splits option.splits)

lemma preparing_fetchHistory: "preparing s \<Longrightarrow> preparing (finalState (fetchHistory opts s))"
  by (simp add: fetchHistory_def preparing_call)

lemma preparing_tokenSafety: "preparing s \<Longrightarrow> preparing (finalState (tokenSafety opts w s))"
  by (simp add: tokenSafety_def Let_def preparing_call)

lemma preparing_openStream: "preparing s \<Longrightarrow> preparing (finalState (openStream w s))"
  by (auto simp: openStream_def preparing_call split: option.splits)

lemma preparing_beforeStream: "preparing (finalState (beforeStream args opts w))"
  unfolding beforeStream_def
  by (intro preparing_andThen preparing_detectProvider preparing_checkRepository
      preparing_readJira preparing_collectChanges preparing_fetchHistory preparing_tokenSafety
      preparing_openStream preparing_initialState)

text \<open>The loop adds only its own calls to the trace.\<close>

lemma applyCommit_trace:
  "e \<in> set (trace (finalState (applyCommit j s p))) \<Longrightarrow> e \<in> set (trace s) \<or> loopEvent e"
  by (cases p) (auto simp: applyCommit_cases split: if_splits)

lemma processCommits_trace:
  "e \<in> set (trace (finalState (processCommits j s ps))) \<Longrightarrow> e \<in> set (trace s) \<or> loopEvent e"
proof (induction ps arbitrary: s)
  case Nil
  then show ?case by simp
next
  case (Cons p ps)
  show ?case
  proof (cases "applyCommit j s p")
    case (Exit code s1)
    then show ?thesis using Cons.prems applyCommit_trace[of e j s p] by simp
  next
    case (Continue s1)
    then have "e \<in> set (trace s1) \<or> loopEvent e" using Cons by simp
    then show ?thesis using applyCommit_trace[of e j s p] Continue by auto
  qed
qed

lemma processStream_trace:
  "e \<in> set (trace (finalState (processStream j s items))) \<Longrightarrow> e \<in> set (trace s) \<or> loopEvent e"
proof (induction j s items rule: processStream.induct)
  case (1 j s)
  then show ?case by simp
next
  case (2 j s e' rest)
  then show ?case by simp
next
  case (3 j s cs rest)
  show ?case
  proof (cases "processCommits j s cs")
    case (Exit code s1)
    then show ?thesis using "3.prems" processCommits_trace[of e j s cs] by simp
  next
    case (Continue s1)
    then have "e \<in> set (trace s1) \<or> loopEvent e" using 3 by simp
    then show ?thesis using processCommits_trace[of e j s cs] Continue by auto
  qed
qed

text \<open>The post-commit stage.\<close>

lemma postCommit_cases:
  "postCommit opts w s =
     (if commitCount s > 0 \<and> \<not> force opts \<and> \<not> yes opts then
        (if pullRequestError w \<noteq> None then Exit 1 (s\<lparr>trace := trace s @ [HandlePullRequest]\<rparr>)
         else if push opts then
           (if pushError w \<noteq> None then Exit 1 (s\<lparr>trace := trace s @ [HandlePullRequest, HandlePush]\<rparr>)
            else Continue (s\<lparr>trace := trace s @ [HandlePullRequest, HandlePush]\<rparr>))
         else Continue (s\<lparr>trace := trace s @ [HandlePullRequest]\<rparr>))
      else if push opts then
        (if pushError w \<noteq> None then Exit 1 (s\<lparr>trace := trace s @ [HandlePush]\<rparr>)
         else Continue (s\<lparr>trace := trace s @ [HandlePush]\<rparr>))
      else Continue s)"
  by (auto simp: postCommit_def call_def Let_def)

lemma postCommit_state:
  "repoCommits (finalState (postCommit opts w s)) = repoCommits s
   \<and> commitCount (finalState (postCommit opts w s)) = commitCount s"
  by (simp add: postCommit_cases)

text \<open>The three ways a run ends.\<close>

lemma main_cases:
  "(\<exists>code s. beforeStream args opts w = Exit code s \<and> main args opts w = (code, s))
   \<or> (\<exists>s0 code s. beforeStream args opts w = Continue s0
         \<and> processStream (jiraTicketOf opts w) s0 (elementStream w) = Exit code s
         \<and> main args opts w = (code, s))
   \<or> (\<exists>s0 s1. beforeStream args opts w = Continue s0
         \<and> processStream (jiraTicketOf opts w) s0 (elementStream w) = Continue s1
         \<and> main args opts w
             = (case postCommit opts w s1 of Exit code s \<Rightarrow> (code, s) | Continue s \<Rightarrow> (0, s)))"
  by (auto simp: main_def andThen_def split: outcome.splits)

lemma main_counter:
  "commitCount (snd (main args opts w)) = length (repoCommits (snd (main args opts w)))"
proof -
  have p: "preparing (finalState (beforeStream args opts w))" by (rule preparing_beforeStream)
  consider (a) code s where "beforeStream args opts w = Exit code s" "main args opts w = (code, s)"
    | (b) s0 code s where "beforeStream args opts w = Continue s0"
        "processStream (jiraTicketOf opts w) s0 (elementStream w) = Exit code s"
        "main args opts w = (code, s)"
    | (c) s0 s1 where "beforeStream args opts w = Continue s0"
        "processStream (jiraTicketOf opts w) s0 (elementStream w) = Continue s1"
        "main args opts w
             = (case postCommit opts w s1 of Exit code s \<Rightarrow> (code, s) | Continue s \<Rightarrow> (0, s))"
    using main_cases[of args opts w] by blast
  then show ?thesis
  proof cases
    case a
    then show ?thesis using p by (simp add: preparing_def)
  next
    case b
    then show ?thesis
      using p processStream_counter[of "jiraTicketOf opts w" s0 "elementStream w"]
      by (simp add: preparing_def)
  next
    case c
    have "snd (main args opts w) = finalState (postCommit opts w s1)"
      using c(3) by (cases "postCommit opts w s1") simp_all
    then show ?thesis
      using c p processStream_counter[of "jiraTicketOf opts w" s0 "elementStream w"]
        postCommit_state[of opts w s1]
      by (simp add: preparing_def)
  qed
qed

lemma main_post_commit_events:
  "(HandlePullRequest \<in> set (trace (snd (main args opts w))) \<longrightarrow>
      0 < commitCount (snd (main args opts w)) \<and> \<not> force opts \<and> \<not> yes opts)
   \<and> (HandlePush \<in> set (trace (snd (main args opts w))) \<longrightarrow> push opts)"
proof -
  have p: "preparing (finalState (beforeStream args opts w))" by (rule preparing_beforeStream)
  have q: "e \<notin> set (trace s)" if "preparing s" "e = HandlePullRequest \<or> e = HandlePush" for e s
    using that by (auto simp: preparing_def list_all_iff)
  consider (a) code s where "beforeStream args opts w = Exit code s" "main args opts w = (code, s)"
    | (b) s0 code s where "beforeStream args opts w = Continue s0"
        "processStream (jiraTicketOf opts w) s0 (elementStream w) = Exit code s"
        "main args opts w = (code, s)"
    | (c) s0 s1 where "beforeStream args opts w = Continue s0"
        "processStream (jiraTicketOf opts w) s0 (elementStream w) = Continue s1"
        "main args opts w
             = (case postCommit opts w s1 of Exit code s \<Rightarrow> (code, s) | Continue s \<Rightarrow> (0, s))"
    using main_cases[of args opts w] by blast
  then show ?thesis
  proof cases
    case a
    then show ?thesis using p q[of s] by simp
  next
    case b
    have "e \<notin> set (trace s)" if "e = HandlePullRequest \<or> e = HandlePush" for e
      using processStream_trace[of e "jiraTicketOf opts w" s0 "elementStream w"] b p q[of s0 e] that
      by auto
    then show ?thesis using b by simp
  next
    case c
    have n: "e \<notin> set (trace s1)" if "e = HandlePullRequest \<or> e = HandlePush" for e
      using processStream_trace[of e "jiraTicketOf opts w" s0 "elementStream w"] c p q[of s0 e] that
      by auto
    have f: "snd (main args opts w) = finalState (postCommit opts w s1)"
      using c(3) by (cases "postCommit opts w s1") simp_all
    show ?thesis
      using n[of HandlePullRequest] n[of HandlePush]
      by (simp add: f postCommit_cases)
  qed
qed

section \<open>The claims\<close>

subsection \<open>C3: the subject line with a Jira ticket\<close>

text \<open>
  Claim C3, as amended. With a Jira ticket (a ticket that is not empty), the commit
  message of \<open>buildCommitMessages\<close> is the ticket, a hyphen, the type, \<open>!\<close> if the
  commit is breaking, a hyphen, and the description with its first character in
  lower case and every run of whitespace replaced by one hyphen, the runs at the
  start and at the end of the description as well as the internal ones: a run \<open>ws\<close>
  between \<open>u\<close> and \<open>v\<close> gives one hyphen between what \<open>u\<close> and \<open>v\<close> give (also when
  \<open>u\<close> or \<open>v\<close> is empty, a run at an end), and text without whitespace is kept. On a
  description \<open>d\<close> without whitespace at either end this is the specification's
  wording, the internal runs collapsed. The display message is that same line;
  neither depends on the scope, the body or the footers. The message given to
  \<open>git.commit\<close> is the line followed by the body and the footers, when they are
  there and not empty, each after an empty line.
\<close>

theorem jira_subject_line:
  "(t \<noteq> [] \<longrightarrow>
      commitMessage (buildCommitMessages c (Some t))
        = t @ ''-'' @ type c @ (if breaking c then ''!'' else '''') @ ''-''
          @ replaceWhitespaceRuns (decapitalizeFirstLetter (description c))
      \<and> displayMessage (buildCommitMessages c (Some t))
          = commitMessage (buildCommitMessages c (Some t))
      \<and> buildCommitMessages (c\<lparr>scope := sc\<rparr>) (Some t) = buildCommitMessages c (Some t)
      \<and> buildCommitMessages (c\<lparr>body := b, footers := fs\<rparr>) (Some t)
          = buildCommitMessages c (Some t)
      \<and> persistedMessage c (commitMessage (buildCommitMessages c (Some t)))
          = commitMessage (buildCommitMessages c (Some t))
            @ (case body c of
                 None \<Rightarrow> []
               | Some b' \<Rightarrow> if b' \<noteq> [] then [CHR 0x0A, CHR 0x0A] @ b' else [])
            @ (case footers c of
                 None \<Rightarrow> []
               | Some fs' \<Rightarrow> if fs' \<noteq> [] then [CHR 0x0A, CHR 0x0A] @ join [CHR 0x0A] fs' else []))
   \<and> decapitalizeFirstLetter [] = []
   \<and> decapitalizeFirstLetter (x # xs) = toLowerCase_char x # xs
   \<and> (ws \<noteq> [] \<and> (\<forall>y\<in>set ws. isSpace y) \<and> (u = [] \<or> \<not> isSpace (last u))
        \<and> (v = [] \<or> \<not> isSpace (hd v)) \<longrightarrow>
        replaceWhitespaceRuns (u @ ws @ v)
          = replaceWhitespaceRuns u @ ''-'' @ replaceWhitespaceRuns v)
   \<and> ((\<forall>y\<in>set w. \<not> isSpace y) \<longrightarrow> replaceWhitespaceRuns w = w)
   \<and> (d = [] \<or> (\<not> isSpace (hd d) \<and> \<not> isSpace (last d)) \<longrightarrow>
        replaceWhitespaceRuns d = spec_collapseInternalWhitespace d)"
proof -
  have jira: "t \<noteq> [] \<Longrightarrow> buildCommitMessages c' (Some t) =
     (let s = t @ ''-'' @ type c' @ (if breaking c' then ''!'' else '''') @ ''-''
              @ replaceWhitespaceRuns (decapitalizeFirstLetter (description c'))
      in \<lparr>commitMessage = s, displayMessage = s\<rparr>)" for c'
    by (rule buildCommitMessages_jira)
  have pm: "persistedMessage c m
          = m @ (case body c of
                 None \<Rightarrow> []
               | Some b' \<Rightarrow> if b' \<noteq> [] then [CHR 0x0A, CHR 0x0A] @ b' else [])
            @ (case footers c of
                 None \<Rightarrow> []
               | Some fs' \<Rightarrow> if fs' \<noteq> [] then [CHR 0x0A, CHR 0x0A] @ join [CHR 0x0A] fs' else [])" for m
    by (simp add: persistedMessage_def Let_def split: option.splits)
  have run: "ws \<noteq> [] \<Longrightarrow> (\<forall>y\<in>set ws. isSpace y) \<Longrightarrow> u = [] \<or> \<not> isSpace (last u)
        \<Longrightarrow> v = [] \<or> \<not> isSpace (hd v) \<Longrightarrow>
        replaceWhitespaceRuns (u @ ws @ v)
          = replaceWhitespaceRuns u @ ''-'' @ replaceWhitespaceRuns v"
    by (simp add: replaceWhitespaceRuns_append replaceWhitespaceRuns_run)
  have words: "d = [] \<or> (\<not> isSpace (hd d) \<and> \<not> isSpace (last d)) \<Longrightarrow>
        replaceWhitespaceRuns d = spec_collapseInternalWhitespace d"
    by (rule replaceWhitespaceRuns_spec)
  show ?thesis
    using run words by (simp add: jira Let_def pm decapitalizeFirstLetter_Nil
        decapitalizeFirstLetter_Cons replaceWhitespaceRuns_id)
qed

theorem jira_subject_line_witness:
  "''PROJ-12'' \<noteq> []
   \<and> commitMessage (buildCommitMessages
        \<lparr>type = ''feat'', scope = Some ''ui'', description = [CHR ''A'', CHR ''d'', CHR ''d'', CHR '' '', CHR 0x09, CHR ''i'', CHR ''t''],
         breaking = True, body = Some ''Why.'', footers = Some [''Refs: 1''], files = [''a.ts'']\<rparr>
        (Some ''PROJ-12'')) = ''PROJ-12-feat!-add-it''
   \<and> persistedMessage
        \<lparr>type = ''feat'', scope = Some ''ui'', description = [CHR ''A'', CHR ''d'', CHR ''d'', CHR '' '', CHR 0x09, CHR ''i'', CHR ''t''],
         breaking = True, body = Some ''Why.'', footers = Some [''Refs: 1''], files = [''a.ts'']\<rparr>
        ''PROJ-12-feat!-add-it'' = ''PROJ-12-feat!-add-it'' @ [CHR 0x0A, CHR 0x0A] @ ''Why.'' @ [CHR 0x0A, CHR 0x0A] @ ''Refs: 1''
   \<and> isSpace CHR '' '' \<and> isSpace (CHR 0x09)
   \<and> \<not> isSpace (last ''add'') \<and> \<not> isSpace (hd ''it'')
   \<and> replaceWhitespaceRuns (''add'' @ [CHR '' '', CHR 0x09] @ ''it'') = ''add-it''
   \<and> \<not> isSpace (hd ''add it'') \<and> \<not> isSpace (last ''add it'')
   \<and> replaceWhitespaceRuns ''add it'' = ''add-it''
   \<and> spec_collapseInternalWhitespace ''add it'' = ''add-it''"
  using jira_subject_line [where t = "''PROJ-12''" and u = "''add''" and ws = "[CHR '' '', CHR 0x09]"
      and v = "''it''" and w = "''add''" and d = "''add it''" and sc = None and b = None and fs = None
      and x = "CHR ''A''" and xs = "''dd''"
      and c = "\<lparr>type = ''feat'', scope = Some ''ui'', description = [CHR ''A'', CHR ''d'', CHR ''d'', CHR '' '', CHR 0x09, CHR ''i'', CHR ''t''],
         breaking = True, body = Some ''Why.'', footers = Some [''Refs: 1''], files = [''a.ts'']\<rparr>"]
  by (simp add: isSpace_def toLowerCase_char_def upperCaseLetters_def lowerCaseLetters_def decapitalizeFirstLetter_Cons
      buildCommitMessages_def truthy_def persistedMessage_def Let_def
      spec_collapseInternalWhitespace_def spec_words_def)

text \<open>
  Claim C3 as stated fails: it collapses the internal runs only, and the description
  \<open>Add it\<close> followed by a space has a run at its end, which the code turns into a
  hyphen too; the subject line ends in a hyphen, not in the space.
\<close>

theorem jira_subject_line_counterexample:
  "commitMessage (buildCommitMessages
        \<lparr>type = ''fix'', scope = None, description = ''Add it '', breaking = False,
         body = None, footers = None, files = [''a.ts'']\<rparr> (Some ''AB-1''))
     = ''AB-1-fix-add-it-''
   \<and> spec_collapseInternalWhitespace (decapitalizeFirstLetter ''Add it '') = ''add-it ''
   \<and> commitMessage (buildCommitMessages
        \<lparr>type = ''fix'', scope = None, description = ''Add it '', breaking = False,
         body = None, footers = None, files = [''a.ts'']\<rparr> (Some ''AB-1''))
     \<noteq> ''AB-1'' @ ''-'' @ ''fix'' @ ''-''
        @ spec_collapseInternalWhitespace (decapitalizeFirstLetter ''Add it '')"
  by (simp add: buildCommitMessages_def truthy_def Let_def decapitalizeFirstLetter_Cons
      toLowerCase_char_def upperCaseLetters_def lowerCaseLetters_def isSpace_def
      spec_collapseInternalWhitespace_def spec_words_def)

subsection \<open>C4: the conventional subject line\<close>

text \<open>
  Claim C4, as amended. Without a Jira ticket the subject line is
  \<open>type(scope)!: description\<close>, with the scope and \<open>!\<close> left out when absent and the
  first character of the description in lower case, unless that description already
  starts with the prefix \<open>type(scope)!\<close>: then the subject line is the description
  alone. So a description that, with its first character in lower case, is the
  prefix followed by \<open>da\<close> gives the prefix followed by \<open>da\<close>, the prefix once; and
  so does a description that is itself the prefix followed by \<open>db\<close> when the prefix
  is not empty and does not start with a capital.
\<close>

theorem conventional_subject_line:
  "\<not> truthy j \<longrightarrow>
     commitMessage (buildCommitMessages c j)
       = (if startsWith (decapitalizeFirstLetter (description c)) (conventionalPrefix c)
          then decapitalizeFirstLetter (description c)
          else conventionalPrefix c @ '': '' @ decapitalizeFirstLetter (description c))
     \<and> conventionalPrefix c
       = type c
         @ (case scope c of None \<Rightarrow> [] | Some sc \<Rightarrow> if sc \<noteq> [] then ''('' @ sc @ '')'' else [])
         @ (if breaking c then ''!'' else [])
     \<and> (decapitalizeFirstLetter (description c) = conventionalPrefix c @ da \<longrightarrow>
          commitMessage (buildCommitMessages c j) = conventionalPrefix c @ da)
     \<and> (description c = conventionalPrefix c @ db \<and> conventionalPrefix c \<noteq> []
          \<and> decapitalizeFirstLetter (conventionalPrefix c) = conventionalPrefix c \<longrightarrow>
          commitMessage (buildCommitMessages c j) = conventionalPrefix c @ db)"
proof
  assume nj: "\<not> truthy j"
  let ?d = "decapitalizeFirstLetter (description c)"
  let ?p = "conventionalPrefix c"
  have m: "commitMessage (buildCommitMessages c j) = (if startsWith ?d ?p then ?d else ?p @ '': '' @ ?d)"
    using nj by (simp add: buildCommitMessages_conventional Let_def)
  have p: "?p = type c
         @ (case scope c of None \<Rightarrow> [] | Some sc \<Rightarrow> if sc \<noteq> [] then ''('' @ sc @ '')'' else [])
         @ (if breaking c then ''!'' else [])"
    by (simp add: conventionalPrefix_def split: option.splits)
  have r1: "?d = ?p @ da \<Longrightarrow> commitMessage (buildCommitMessages c j) = ?p @ da"
    using m by (simp add: startsWith_def)
  have r2: "commitMessage (buildCommitMessages c j) = ?p @ db"
    if "description c = ?p @ db" "?p \<noteq> []" "decapitalizeFirstLetter ?p = ?p"
  proof -
    have "?d = ?p @ db" using that by (metis decapitalizeFirstLetter_append)
    then show ?thesis using m by (simp add: startsWith_def)
  qed
  show "commitMessage (buildCommitMessages c j)
       = (if startsWith ?d ?p then ?d else ?p @ '': '' @ ?d)
     \<and> ?p = type c
         @ (case scope c of None \<Rightarrow> [] | Some sc \<Rightarrow> if sc \<noteq> [] then ''('' @ sc @ '')'' else [])
         @ (if breaking c then ''!'' else [])
     \<and> (?d = ?p @ da \<longrightarrow> commitMessage (buildCommitMessages c j) = ?p @ da)
     \<and> (description c = ?p @ db \<and> ?p \<noteq> [] \<and> decapitalizeFirstLetter ?p = ?p \<longrightarrow>
          commitMessage (buildCommitMessages c j) = ?p @ db)"
    using m p r1 r2 by blast
qed

theorem conventional_subject_line_witness:
  "\<not> truthy None
   \<and> commitMessage (buildCommitMessages
        \<lparr>type = ''fix'', scope = Some ''api'', description = ''Handle empty diff'', breaking = True,
         body = None, footers = None, files = [''a.ts'']\<rparr> None) = ''fix(api)!: handle empty diff''
   \<and> commitMessage (buildCommitMessages
        \<lparr>type = ''fix'', scope = None, description = ''fix: handle empty diff'', breaking = False,
         body = None, footers = None, files = [''a.ts'']\<rparr> None) = ''fix: handle empty diff''"
  using conventional_subject_line [where j = None and da = "''''" and db = "''''"
      and c = "\<lparr>type = ''fix'', scope = Some ''api'', description = ''Handle empty diff'', breaking = True,
         body = None, footers = None, files = [''a.ts'']\<rparr>"]
    conventional_subject_line [where j = None and da = "'': handle empty diff''" and db = "'': handle empty diff''"
      and c = "\<lparr>type = ''fix'', scope = None, description = ''fix: handle empty diff'', breaking = False,
         body = None, footers = None, files = [''a.ts'']\<rparr>"]
  by (simp add: truthy_def buildCommitMessages_def conventionalPrefix_def startsWith_def
      decapitalizeFirstLetter_Cons toLowerCase_char_def upperCaseLetters_def lowerCaseLetters_def Let_def)

text \<open>
  Claim C4 as stated fails: the description \<open>Fixture cleanup\<close> does not start with
  the prefix \<open>fix\<close>, and yet the subject line is not \<open>fix: fixture cleanup\<close>; it has
  no type at all.
\<close>

theorem conventional_subject_counterexample:
  "\<not> startsWith ''Fixture cleanup''
        (conventionalPrefix \<lparr>type = ''fix'', scope = None, description = ''Fixture cleanup'',
           breaking = False, body = None, footers = None, files = [''a.ts'']\<rparr>)
   \<and> commitMessage (buildCommitMessages
        \<lparr>type = ''fix'', scope = None, description = ''Fixture cleanup'',
         breaking = False, body = None, footers = None, files = [''a.ts'']\<rparr> None)
       = ''fixture cleanup''
   \<and> commitMessage (buildCommitMessages
        \<lparr>type = ''fix'', scope = None, description = ''Fixture cleanup'',
         breaking = False, body = None, footers = None, files = [''a.ts'']\<rparr> None)
       \<noteq> ''fix: fixture cleanup''"
  by (simp add: truthy_def buildCommitMessages_def conventionalPrefix_def startsWith_def
      decapitalizeFirstLetter_Cons toLowerCase_char_def upperCaseLetters_def lowerCaseLetters_def Let_def)
subsection \<open>C10: the redundancy check is a plain prefix test\<close>

text \<open>
  Claim C10. Without a Jira ticket, whenever the description with its first
  character in lower case starts with the prefix, whatever follows the prefix
  (\<open>rest\<close> is arbitrary: no colon, no word boundary), the subject line is that
  description alone. The type \<open>feat\<close> with the description \<open>Feature flags added\<close>
  gives \<open>feature flags added\<close>, which does not start with \<open>feat: \<close>.
\<close>

theorem redundancy_check_is_startsWith:
  "(\<not> truthy j \<and> decapitalizeFirstLetter (description c) = conventionalPrefix c @ rest \<longrightarrow>
      commitMessage (buildCommitMessages c j) = conventionalPrefix c @ rest
      \<and> displayMessage (buildCommitMessages c j) = conventionalPrefix c @ rest)
   \<and> commitMessage (buildCommitMessages
        \<lparr>type = ''feat'', scope = None, description = ''Feature flags added'',
         breaking = False, body = None, footers = None, files = fs\<rparr> None)
       = ''feature flags added''
   \<and> \<not> startsWith ''feature flags added'' ''feat: ''"
proof -
  have "commitMessage (buildCommitMessages c j) = conventionalPrefix c @ rest
      \<and> displayMessage (buildCommitMessages c j) = conventionalPrefix c @ rest"
    if "\<not> truthy j" "decapitalizeFirstLetter (description c) = conventionalPrefix c @ rest"
    using that by (simp add: buildCommitMessages_conventional Let_def startsWith_def)
  moreover have "commitMessage (buildCommitMessages
        \<lparr>type = ''feat'', scope = None, description = ''Feature flags added'',
         breaking = False, body = None, footers = None, files = fs\<rparr> None)
       = ''feature flags added''"
    by (simp add: truthy_def buildCommitMessages_def conventionalPrefix_def startsWith_def
      decapitalizeFirstLetter_Cons toLowerCase_char_def upperCaseLetters_def lowerCaseLetters_def Let_def)
  moreover have "\<not> startsWith ''feature flags added'' ''feat: ''"
    by (simp add: startsWith_def)
  ultimately show ?thesis by blast
qed

theorem redundancy_check_is_startsWith_witness:
  "\<not> truthy None
   \<and> decapitalizeFirstLetter ''Docstrings rewritten'' = ''docs'' @ ''trings rewritten''
   \<and> commitMessage (buildCommitMessages
        \<lparr>type = ''docs'', scope = None, description = ''Docstrings rewritten'',
         breaking = False, body = None, footers = None, files = []\<rparr> None)
       = ''docstrings rewritten''"
  using redundancy_check_is_startsWith [where j = None and rest = "''trings rewritten''" and fs = "[]"
      and c = "\<lparr>type = ''docs'', scope = None, description = ''Docstrings rewritten'',
         breaking = False, body = None, footers = None, files = []\<rparr>"]
  by (simp add: truthy_def conventionalPrefix_def decapitalizeFirstLetter_Cons toLowerCase_char_def upperCaseLetters_def lowerCaseLetters_def)
subsection \<open>C7: the token tiers are monotone\<close>

text \<open>
  Claim C7. For token counts \<open>a \<le> b\<close> the tier of \<open>a\<close> is at most the tier of
  \<open>b\<close>, and a confirmation asked for at \<open>a\<close> is asked for at \<open>b\<close>; below the lowest
  threshold (5000) no confirmation is asked for, and from the highest threshold
  (100000) on it always is.
\<close>

theorem categorizeTokenCount_monotone:
  "(a \<le> b \<longrightarrow>
      riskTier (categorizeTokenCount a) \<le> riskTier (categorizeTokenCount b)
      \<and> (needsConfirmation (categorizeTokenCount a) \<longrightarrow>
           needsConfirmation (categorizeTokenCount b)))
   \<and> (n < 5000 \<longrightarrow> \<not> needsConfirmation (categorizeTokenCount n))
   \<and> (100000 \<le> m \<longrightarrow> needsConfirmation (categorizeTokenCount m))"
  by (simp add: categorizeTokenCount_def riskTier_def)

theorem categorizeTokenCount_monotone_witness:
  "(4999::int) \<le> 5000
   \<and> riskTier (categorizeTokenCount 4999) = 0 \<and> riskTier (categorizeTokenCount 5000) = 1
   \<and> riskTier (categorizeTokenCount 4999) \<le> riskTier (categorizeTokenCount 5000)
   \<and> \<not> needsConfirmation (categorizeTokenCount 4999)
   \<and> needsConfirmation (categorizeTokenCount 100000)"
  using categorizeTokenCount_monotone [of 4999 5000 4999 100000]
  by (simp add: categorizeTokenCount_def riskTier_def)

subsection \<open>C5: the message that is committed\<close>

text \<open>
  Claim C5, as amended. The message given to \<open>git.commit\<close> for an accepted proposal
  is the subject line, then, if the body is there and not empty, an empty line and
  the body as it is, then, if there are footers, an empty line and the footers, one
  per line; an accepted proposal whose staging and commit succeed creates one commit
  with this message. The body is wrapped to 80 columns only where it is displayed
  before the confirmation: there every line is at most 80 characters long or is a
  single word of the body.
\<close>

theorem persisted_message_layout:
  "persistedMessage c subject
     = subject
       @ (case body c of
            None \<Rightarrow> []
          | Some b \<Rightarrow> if b \<noteq> [] then [CHR 0x0A, CHR 0x0A] @ b else [])
       @ (case footers c of
            None \<Rightarrow> []
          | Some fs \<Rightarrow> if fs \<noteq> [] then [CHR 0x0A, CHR 0x0A] @ join [CHR 0x0A] fs else [])
   \<and> (shipIt r \<and> addError r = None \<and> commitError r = None \<longrightarrow>
        applyCommit j s (c, r) =
          Continue (s\<lparr>trace := trace s @ [AskShipIt (displayMessage (buildCommitMessages c j)),
                                          GitAdd (files c),
                                          GitCommit (persistedMessage c (commitMessage (buildCommitMessages c j))) (files c)],
                      repoCommits := repoCommits s
                        @ [(persistedMessage c (commitMessage (buildCommitMessages c j)), files c)],
                      commitCount := commitCount s + 1\<rparr>))
   \<and> displayedBody c
       = (case body c of
            None \<Rightarrow> None
          | Some b \<Rightarrow> if b \<noteq> [] then Some (join [CHR 0x0A] (wrapLines b 80)) else None)
   \<and> (\<forall>l\<in>set (wrapLines b' 80).
         length l \<le> 80 \<or> (l \<in> set (split CHR '' '' b') \<and> CHR '' '' \<notin> set l))"
proof -
  have d: "displayedBody c
       = (case body c of
            None \<Rightarrow> None
          | Some b \<Rightarrow> if b \<noteq> [] then Some (join [CHR 0x0A] (wrapLines b 80)) else None)"
    by (simp add: displayedBody_def wrapText80_def wrapText_def split: option.splits)
  have w: "\<forall>l\<in>set (wrapLines b' 80).
         length l \<le> 80 \<or> (l \<in> set (split CHR '' '' b') \<and> CHR '' '' \<notin> set l)"
    using wrapLines_width[of _ b' 80] split_word_no_sep[of _ "CHR '' ''" b'] by fastforce
  show ?thesis
    using persistedMessage_eq[of c subject] applyCommit_applied[of r j s c] d w by blast
qed

theorem persisted_message_layout_witness:
  "persistedMessage
     \<lparr>type = ''fix'', scope = None, description = ''wrap'', breaking = False,
      body = Some ''Why it matters.'', footers = Some [''Refs: 12'', ''Reviewed-by: Z''],
      files = [''src/utils.ts'']\<rparr> ''fix: wrap''
   = ''fix: wrap'' @ [CHR 0x0A, CHR 0x0A] @ ''Why it matters.''
     @ [CHR 0x0A, CHR 0x0A] @ ''Refs: 12'' @ [CHR 0x0A] @ ''Reviewed-by: Z''
   \<and> shipIt \<lparr>shipIt = True, addError = None, commitError = None\<rparr>
   \<and> repoCommits (case applyCommit None \<lparr>trace = [], repoCommits = [], commitCount = 0\<rparr>
        (\<lparr>type = ''fix'', scope = None, description = ''wrap'', breaking = False,
          body = Some ''Why it matters.'', footers = Some [''Refs: 12'', ''Reviewed-by: Z''],
          files = [''src/utils.ts'']\<rparr>, \<lparr>shipIt = True, addError = None, commitError = None\<rparr>)
        of Continue s' \<Rightarrow> s' | Exit code s' \<Rightarrow> s')
     = [(''fix: wrap'' @ [CHR 0x0A, CHR 0x0A] @ ''Why it matters.''
         @ [CHR 0x0A, CHR 0x0A] @ ''Refs: 12'' @ [CHR 0x0A] @ ''Reviewed-by: Z'', [''src/utils.ts''])]
   \<and> list_all (\<lambda>l. length l \<le> 80) (wrapLines ''Why it matters.'' 80)"
  using persisted_message_layout [where subject = "''fix: wrap''" and j = None
      and s = "\<lparr>trace = [], repoCommits = [], commitCount = 0\<rparr>"
      and r = "\<lparr>shipIt = True, addError = None, commitError = None\<rparr>"
      and b' = "''Why it matters.''"
      and c = "\<lparr>type = ''fix'', scope = None, description = ''wrap'', breaking = False,
      body = Some ''Why it matters.'', footers = Some [''Refs: 12'', ''Reviewed-by: Z''],
      files = [''src/utils.ts'']\<rparr>"]
  by (simp add: persistedMessage_def Let_def applyCommit_def call_def buildCommitMessages_def
      truthy_def conventionalPrefix_def startsWith_def decapitalizeFirstLetter_def
      toLocaleLowerCase_def toLowerCase_char_def upperCaseLetters_def lowerCaseLetters_def
      wrapLines_def wrapStep_def finishLines_def split_def)

text \<open>
  Claim C5 as stated fails: a body of 93 characters is wrapped to two lines by
  \<open>wrapText\<close>, and the committed message holds it on one line, unwrapped.
\<close>

theorem persisted_body_not_wrapped_counterexample:
  "wrapText80 ''This body is one long line of text that runs well past the eighty column limit of the wrapper''
     = ''This body is one long line of text that runs well past the eighty column limit''
       @ [CHR 0x0A] @ ''of the wrapper''
   \<and> persistedMessage
       \<lparr>type = ''fix'', scope = None, description = ''wrap'', breaking = False,
        body = Some ''This body is one long line of text that runs well past the eighty column limit of the wrapper'',
        footers = None, files = [''src/utils.ts'']\<rparr> ''fix: wrap''
     = ''fix: wrap'' @ [CHR 0x0A, CHR 0x0A]
       @ ''This body is one long line of text that runs well past the eighty column limit of the wrapper''
   \<and> persistedMessage
       \<lparr>type = ''fix'', scope = None, description = ''wrap'', breaking = False,
        body = Some ''This body is one long line of text that runs well past the eighty column limit of the wrapper'',
        footers = None, files = [''src/utils.ts'']\<rparr> ''fix: wrap''
     \<noteq> ''fix: wrap'' @ [CHR 0x0A, CHR 0x0A]
       @ wrapText80 ''This body is one long line of text that runs well past the eighty column limit of the wrapper''"
  by (simp add: persistedMessage_def Let_def wrapText80_def wrapText_def
      wrapLines_def wrapStep_def finishLines_def split_def)

subsection \<open>C6: the round trip of wrapText\<close>

text \<open>
  Claim C6, as amended. For every text and width, the lines of \<open>wrapText\<close> joined by
  single spaces have the same whitespace-normalised text as the input (and so has
  the wrapped string itself); when the input has no empty word (no space at either
  end and no two spaces in a row) the joined lines are the input itself. No line is
  longer than the width unless it is a single word of the text, one without a space.
\<close>

theorem wrapText_roundtrip:
  "spec_normalizeWhitespace (join '' '' (wrapLines text w)) = spec_normalizeWhitespace text
   \<and> spec_normalizeWhitespace (wrapText text w) = spec_normalizeWhitespace text
   \<and> ([] \<notin> set (split CHR '' '' text) \<longrightarrow> join '' '' (wrapLines text w) = text)
   \<and> (\<forall>l\<in>set (wrapLines text w).
         int (length l) \<le> w \<or> (l \<in> set (split CHR '' '' text) \<and> CHR '' '' \<notin> set l))"
  using wrapLines_normalized[of "text" w] wrapText_normalized[of "text" w]
    wrapLines_rejoin[of "text" w] wrapLines_width[of _ "text" w]
    split_word_no_sep[of _ "CHR '' ''" "text"]
  by blast

theorem wrapText_roundtrip_witness:
  "[] \<notin> set (split CHR '' '' ''ab cd efg'')
   \<and> wrapLines ''ab cd efg'' 5 = [''ab cd'', ''efg'']
   \<and> join '' '' (wrapLines ''ab cd efg'' 5) = ''ab cd efg''
   \<and> spec_normalizeWhitespace (wrapText ''ab cd efg'' 5) = ''ab cd efg''
   \<and> list_all (\<lambda>l. int (length l) \<le> 5) (wrapLines ''ab cd efg'' 5)
   \<and> wrapLines ''ab cdefgh'' 5 = [''ab'', ''cdefgh'']"
  using wrapText_roundtrip [of "''ab cd efg''" 5]
  by (simp add: wrapLines_def wrapStep_def finishLines_def split_def Let_def wrapText_def
      spec_normalizeWhitespace_def spec_words_def isSpace_def)

text \<open>
  Claim C6 as stated fails: the text with two spaces between \<open>a\<close> and \<open>b\<close> is one
  line at width 80, so the joined lines keep both spaces and are not the
  whitespace-normalised text; at width 1 the same text gives two lines, joined with
  one space, so the joined lines are not a function of the text alone.
\<close>

theorem wrapText_roundtrip_counterexample:
  "join '' '' (wrapLines ''a  b'' 80) = ''a  b''
   \<and> spec_normalizeWhitespace ''a  b'' = ''a b''
   \<and> join '' '' (wrapLines ''a  b'' 80) \<noteq> spec_normalizeWhitespace ''a  b''
   \<and> join '' '' (wrapLines ''a  b'' 1) = ''a b''"
  by (simp add: wrapLines_def wrapStep_def finishLines_def split_def Let_def
      spec_normalizeWhitespace_def spec_words_def isSpace_def)

subsection \<open>C1: the counter counts the applied proposals\<close>

text \<open>
  Claim C1. In every run the counter \<open>commitCount\<close> is the number of commits created.
  A declined proposal only asks the question: no call to the version-control
  system, counter and commits unchanged, and the loop goes on with the next
  proposal. An accepted proposal whose staging and commit succeed adds one commit
  and one to the counter; when the loop ends with the stream, counter and commits have
  grown by the accepted proposals, one each. A run that reaches the stream, with one
  accepted proposal in the first response and one declined proposal in the second,
  creates one commit and ends with the counter at 1 (and with exit code 0 when the
  post-commit helpers do not fail).
\<close>

theorem commit_counter_counts_applied:
  "commitCount (snd (main args opts w)) = length (repoCommits (snd (main args opts w)))
   \<and> (\<not> shipIt r \<longrightarrow>
        applyCommit j s (c, r)
          = Continue (s\<lparr>trace := trace s @ [AskShipIt (displayMessage (buildCommitMessages c j))]\<rparr>)
        \<and> processCommits j s ((c, r) # ps)
          = processCommits j
              (s\<lparr>trace := trace s @ [AskShipIt (displayMessage (buildCommitMessages c j))]\<rparr>) ps)
   \<and> (shipIt r \<and> addError r = None \<and> commitError r = None \<longrightarrow>
        commitCount (finalState (applyCommit j s (c, r))) = commitCount s + 1
        \<and> repoCommits (finalState (applyCommit j s (c, r)))
            = repoCommits s @ [committedAs j (c, r)])
   \<and> (processStream j s items = Continue s' \<longrightarrow>
        commitCount s'
          = commitCount s + length (filter (\<lambda>p. shipIt (snd p)) (proposalsOf items))
        \<and> repoCommits s'
          = repoCommits s @ map (committedAs j) (filter (\<lambda>p. shipIt (snd p)) (proposalsOf items)))
   \<and> (beforeStream args opts w = Continue s0
        \<and> elementStream w = [Response [(c1, r1)], Response [(c2, r2)]]
        \<and> shipIt r1 \<and> addError r1 = None \<and> commitError r1 = None \<and> \<not> shipIt r2 \<longrightarrow>
        commitCount (snd (main args opts w)) = 1
        \<and> repoCommits (snd (main args opts w)) = [committedAs (jiraTicketOf opts w) (c1, r1)]
        \<and> (pullRequestError w = None \<and> pushError w = None \<longrightarrow> fst (main args opts w) = 0))"
proof -
  have declined: "applyCommit j s (c, r)
          = Continue (s\<lparr>trace := trace s @ [AskShipIt (displayMessage (buildCommitMessages c j))]\<rparr>)
        \<and> processCommits j s ((c, r) # ps)
          = processCommits j
              (s\<lparr>trace := trace s @ [AskShipIt (displayMessage (buildCommitMessages c j))]\<rparr>) ps"
    if "\<not> shipIt r"
    using that by (simp add: applyCommit_cases)
  have applied: "commitCount (finalState (applyCommit j s (c, r))) = commitCount s + 1
        \<and> repoCommits (finalState (applyCommit j s (c, r)))
            = repoCommits s @ [committedAs j (c, r)]"
    if "shipIt r \<and> addError r = None \<and> commitError r = None"
    using that by (simp add: applyCommit_cases committedAs_def)
  have scenario: "commitCount (snd (main args opts w)) = 1
        \<and> repoCommits (snd (main args opts w)) = [committedAs (jiraTicketOf opts w) (c1, r1)]
        \<and> (pullRequestError w = None \<and> pushError w = None \<longrightarrow> fst (main args opts w) = 0)"
    if h: "beforeStream args opts w = Continue s0
        \<and> elementStream w = [Response [(c1, r1)], Response [(c2, r2)]]
        \<and> shipIt r1 \<and> addError r1 = None \<and> commitError r1 = None \<and> \<not> shipIt r2"
  proof -
    have p: "preparing s0" using preparing_beforeStream[of args opts w] h by simp
    obtain s1 where l: "processStream (jiraTicketOf opts w) s0 (elementStream w) = Continue s1"
      using h by (simp add: applyCommit_cases)
    have m: "main args opts w
             = (case postCommit opts w s1 of Exit code s \<Rightarrow> (code, s) | Continue s \<Rightarrow> (0, s))"
      using h l by (simp add: main_def andThen_def)
    have f: "snd (main args opts w) = finalState (postCommit opts w s1)"
      using m by (cases "postCommit opts w s1") simp_all
    have s1: "commitCount s1 = 1 \<and> repoCommits s1 = [committedAs (jiraTicketOf opts w) (c1, r1)]"
      using processStream_Continue[OF l] p h by (simp add: preparing_def)
    have "fst (main args opts w) = 0" if "pullRequestError w = None \<and> pushError w = None"
      using m that by (simp add: postCommit_cases)
    then show ?thesis using f s1 postCommit_state[of opts w s1] by simp
  qed
  show ?thesis
    using main_counter[of args opts w] declined applied scenario
      processStream_Continue[of j s items s']
    by blast
qed

theorem commit_counter_counts_applied_witness:
  "beforeStream [] noOptions
       (readyWorld [Response [(featCommit, accepts)], Response [(fixCommit, declines)]])
     = Continue \<lparr>trace = [GitCheckIsRepo, GitStatus [], GitDiffSummary [], GitDiff [], StreamObject],
                 repoCommits = [], commitCount = 0\<rparr>
   \<and> shipIt accepts \<and> addError accepts = None \<and> commitError accepts = None \<and> \<not> shipIt declines
   \<and> main [] noOptions
       (readyWorld [Response [(featCommit, accepts)], Response [(fixCommit, declines)]])
     = (0, \<lparr>trace = [GitCheckIsRepo, GitStatus [], GitDiffSummary [], GitDiff [], StreamObject,
                    AskShipIt ''feat(cli): add the push flag'', GitAdd [''index.ts''],
                    GitCommit ''feat(cli): add the push flag'' [''index.ts''],
                    AskShipIt ''fix: handle an empty diff'', HandlePullRequest],
           repoCommits = [(''feat(cli): add the push flag'', [''index.ts''])],
           commitCount = 1\<rparr>)
   \<and> commitCount (snd (main [] noOptions
       (readyWorld [Response [(featCommit, accepts)], Response [(fixCommit, declines)]]))) = 1
   \<and> applyCommit None \<lparr>trace = [], repoCommits = [], commitCount = 0\<rparr> (fixCommit, declines)
     = Continue \<lparr>trace = [AskShipIt ''fix: handle an empty diff''], repoCommits = [], commitCount = 0\<rparr>"
  using commit_counter_counts_applied [where args = "[]" and opts = noOptions
      and w = "readyWorld [Response [(featCommit, accepts)], Response [(fixCommit, declines)]]"
      and ?c1.0 = featCommit and ?r1.0 = accepts and ?c2.0 = fixCommit and ?r2.0 = declines
      and ?s0.0 = "\<lparr>trace = [GitCheckIsRepo, GitStatus [], GitDiffSummary [], GitDiff [], StreamObject],
                 repoCommits = [], commitCount = 0\<rparr>"
      and r = declines and c = fixCommit and j = None and ps = "[]"
      and s = "\<lparr>trace = [], repoCommits = [], commitCount = 0\<rparr>"
      and items = "[]" and s' = "\<lparr>trace = [], repoCommits = [], commitCount = 0\<rparr>"]
  by (simp add: run_defs example_defs)

subsection \<open>C2: a failure of staging or of the commit ends the run\<close>

text \<open>
  Claim C2. When a run reaches the stream and the proposals before \<open>(c, r)\<close> have
  been handled without failure, and \<open>(c, r)\<close> is accepted but its staging or its
  commit fails, the run ends with exit code 1 in the state of that moment: the last
  call is the one that failed, whatever follows in the response (\<open>after\<close>) and in
  the stream (\<open>rest\<close>) is never looked at, no further call is made, and the commits
  of the accepted proposals before it are all still there, counted by the counter.
\<close>

theorem apply_failure_is_fatal:
  "beforeStream args opts w = Continue s0
   \<and> elementStream w = pre @ Response (before @ (c, r) # after) # rest
   \<and> processStream (jiraTicketOf opts w) s0 pre = Continue sa
   \<and> processCommits (jiraTicketOf opts w) sa before = Continue sb
   \<and> shipIt r \<and> (addError r \<noteq> None \<or> commitError r \<noteq> None) \<longrightarrow>
     main args opts w
       = (1, sb\<lparr>trace := trace sb
                  @ [AskShipIt (displayMessage (buildCommitMessages c (jiraTicketOf opts w))),
                     GitAdd (files c)]
                  @ (if addError r = None
                     then [GitCommit (persistedMessage c
                             (commitMessage (buildCommitMessages c (jiraTicketOf opts w)))) (files c)]
                     else [])\<rparr>)
     \<and> repoCommits (snd (main args opts w))
         = map (committedAs (jiraTicketOf opts w))
             (filter (\<lambda>p. shipIt (snd p)) (proposalsOf pre @ before))
     \<and> commitCount (snd (main args opts w))
         = length (filter (\<lambda>p. shipIt (snd p)) (proposalsOf pre @ before))"
proof
  let ?j = "jiraTicketOf opts w"
  let ?s = "sb\<lparr>trace := trace sb
                  @ [AskShipIt (displayMessage (buildCommitMessages c ?j)), GitAdd (files c)]
                  @ (if addError r = None
                     then [GitCommit (persistedMessage c (commitMessage (buildCommitMessages c ?j))) (files c)]
                     else [])\<rparr>"
  assume h: "beforeStream args opts w = Continue s0
   \<and> elementStream w = pre @ Response (before @ (c, r) # after) # rest
   \<and> processStream ?j s0 pre = Continue sa
   \<and> processCommits ?j sa before = Continue sb
   \<and> shipIt r \<and> (addError r \<noteq> None \<or> commitError r \<noteq> None)"
  have p: "preparing s0" using preparing_beforeStream[of args opts w] h by simp
  have a: "applyCommit ?j sb (c, r) = Exit 1 ?s"
    using h by (auto simp: applyCommit_cases)
  have "processCommits ?j sa (before @ (c, r) # after) = Exit 1 ?s"
    using h a by (simp add: processCommits_append andThen_def)
  then have "processStream ?j s0 (elementStream w) = Exit 1 ?s"
    using h by (simp add: processStream_append andThen_def)
  then have m: "main args opts w = (1, ?s)"
    using h by (simp add: main_def andThen_def)
  have sa: "repoCommits sa = map (committedAs ?j) (filter (\<lambda>p. shipIt (snd p)) (proposalsOf pre))
    \<and> commitCount sa = length (filter (\<lambda>p. shipIt (snd p)) (proposalsOf pre))"
    using processStream_Continue[of ?j s0 pre sa] h p by (simp add: preparing_def)
  have sb: "repoCommits sb = repoCommits sa @ map (committedAs ?j) (filter (\<lambda>p. shipIt (snd p)) before)
    \<and> commitCount sb = commitCount sa + length (filter (\<lambda>p. shipIt (snd p)) before)"
    using processCommits_Continue[of ?j sa before sb] h by simp
  show "main args opts w = (1, ?s)
     \<and> repoCommits (snd (main args opts w))
         = map (committedAs ?j) (filter (\<lambda>p. shipIt (snd p)) (proposalsOf pre @ before))
     \<and> commitCount (snd (main args opts w))
         = length (filter (\<lambda>p. shipIt (snd p)) (proposalsOf pre @ before))"
    using m sa sb by simp
qed

theorem apply_failure_is_fatal_witness:
  "beforeStream [] noOptions
       (readyWorld [Response [(featCommit, accepts)],
                    Response [(fixCommit, commitFails), (featCommit, accepts)],
                    Response [(fixCommit, accepts)]])
     = Continue \<lparr>trace = [GitCheckIsRepo, GitStatus [], GitDiffSummary [], GitDiff [], StreamObject],
                 repoCommits = [], commitCount = 0\<rparr>
   \<and> shipIt commitFails \<and> commitError commitFails \<noteq> None
   \<and> main [] noOptions
       (readyWorld [Response [(featCommit, accepts)],
                    Response [(fixCommit, commitFails), (featCommit, accepts)],
                    Response [(fixCommit, accepts)]])
     = (1, \<lparr>trace = [GitCheckIsRepo, GitStatus [], GitDiffSummary [], GitDiff [], StreamObject,
                    AskShipIt ''feat(cli): add the push flag'', GitAdd [''index.ts''],
                    GitCommit ''feat(cli): add the push flag'' [''index.ts''],
                    AskShipIt ''fix: handle an empty diff'', GitAdd [''utils.ts'', ''index.ts''],
                    GitCommit (''fix: handle an empty diff'' @ [CHR 0x0A, CHR 0x0A]
                               @ ''The summary was read before the check.'')
                      [''utils.ts'', ''index.ts'']],
           repoCommits = [(''feat(cli): add the push flag'', [''index.ts''])],
           commitCount = 1\<rparr>)"
  using apply_failure_is_fatal [where args = "[]" and opts = noOptions
      and w = "readyWorld [Response [(featCommit, accepts)],
                    Response [(fixCommit, commitFails), (featCommit, accepts)],
                    Response [(fixCommit, accepts)]]"
      and pre = "[Response [(featCommit, accepts)]]" and before = "[]"
      and c = fixCommit and r = commitFails and after = "[(featCommit, accepts)]"
      and rest = "[Response [(fixCommit, accepts)]]"
      and ?s0.0 = "\<lparr>trace = [GitCheckIsRepo, GitStatus [], GitDiffSummary [], GitDiff [], StreamObject],
                 repoCommits = [], commitCount = 0\<rparr>"
      and sa = "\<lparr>trace = [GitCheckIsRepo, GitStatus [], GitDiffSummary [], GitDiff [], StreamObject,
                    AskShipIt ''feat(cli): add the push flag'', GitAdd [''index.ts''],
                    GitCommit ''feat(cli): add the push flag'' [''index.ts'']],
                 repoCommits = [(''feat(cli): add the push flag'', [''index.ts''])], commitCount = 1\<rparr>"
      and sb = "\<lparr>trace = [GitCheckIsRepo, GitStatus [], GitDiffSummary [], GitDiff [], StreamObject,
                    AskShipIt ''feat(cli): add the push flag'', GitAdd [''index.ts''],
                    GitCommit ''feat(cli): add the push flag'' [''index.ts'']],
                 repoCommits = [(''feat(cli): add the push flag'', [''index.ts''])], commitCount = 1\<rparr>"]
  by (simp add: run_defs example_defs)

subsection \<open>C8: staged files and path arguments\<close>

text \<open>
  Claim C8. When paths are given on the command line and the status of the
  working tree (which then is not clean) lists staged files, the run ends with
  exit code 1, and neither \<open>git.diffSummary\<close> nor \<open>git.diff\<close> has been called, nor
  anything committed; when the provider is configured, the directory is a
  repository and there is no conflict, the run ends right after \<open>git.status\<close>.
\<close>

theorem staged_with_paths_aborts:
  "args \<noteq> [] \<and> gitStatus w = Inr st \<and> staged st \<noteq> [] \<and> \<not> isClean st \<longrightarrow>
     fst (main args opts w) = 1
     \<and> (\<forall>a. GitDiffSummary a \<notin> set (trace (snd (main args opts w)))
             \<and> GitDiff a \<notin> set (trace (snd (main args opts w))))
     \<and> repoCommits (snd (main args opts w)) = []
     \<and> (providerConfigured w \<and> checkIsRepo w = Inr True \<and> conflicted st = [] \<longrightarrow>
          main args opts w
            = (1, \<lparr>trace = GitCheckIsRepo # (if jira opts then [GitRevparse] else [])
                            @ [GitStatus args],
                   repoCommits = [], commitCount = 0\<rparr>))"
proof
  assume h: "args \<noteq> [] \<and> gitStatus w = Inr st \<and> staged st \<noteq> [] \<and> \<not> isClean st"
  have c: "collectChanges args w s = Exit 1 (call (GitStatus args) s)" for s
    using h by (simp add: collectChanges_def Let_def)
  have b: "beforeStream args opts w
    = (if \<not> providerConfigured w then Exit 1 initialState
       else if checkIsRepo w \<noteq> Inr True then Exit 1 (call GitCheckIsRepo initialState)
       else Exit 1 (call (GitStatus args)
              (if jira opts then call GitRevparse (call GitCheckIsRepo initialState)
               else call GitCheckIsRepo initialState)))"
    by (auto simp: beforeStream_def andThen_def detectProvider_def checkRepository_def
        readJira_def c split: sum.splits)
  have m: "main args opts w
    = (if \<not> providerConfigured w then (1, initialState)
       else if checkIsRepo w \<noteq> Inr True then (1, call GitCheckIsRepo initialState)
       else (1, call (GitStatus args)
              (if jira opts then call GitRevparse (call GitCheckIsRepo initialState)
               else call GitCheckIsRepo initialState)))"
    by (simp add: main_def b andThen_def)
  show "fst (main args opts w) = 1
     \<and> (\<forall>a. GitDiffSummary a \<notin> set (trace (snd (main args opts w)))
             \<and> GitDiff a \<notin> set (trace (snd (main args opts w))))
     \<and> repoCommits (snd (main args opts w)) = []
     \<and> (providerConfigured w \<and> checkIsRepo w = Inr True \<and> conflicted st = [] \<longrightarrow>
          main args opts w
            = (1, \<lparr>trace = GitCheckIsRepo # (if jira opts then [GitRevparse] else [])
                            @ [GitStatus args],
                   repoCommits = [], commitCount = 0\<rparr>))"
    by (simp add: m call_def initialState_def)
qed

theorem staged_with_paths_aborts_witness:
  "[''src''] \<noteq> []
   \<and> staged \<lparr>isClean = False, conflicted = [], staged = [''a.ts'']\<rparr> \<noteq> []
   \<and> \<not> isClean \<lparr>isClean = False, conflicted = [], staged = [''a.ts'']\<rparr>
   \<and> main [''src''] noOptions
       ((readyWorld [Response [(featCommit, accepts)]])
          \<lparr>gitStatus := Inr \<lparr>isClean = False, conflicted = [], staged = [''a.ts'']\<rparr>\<rparr>)
     = (1, \<lparr>trace = [GitCheckIsRepo, GitStatus [''src'']], repoCommits = [], commitCount = 0\<rparr>)"
  using staged_with_paths_aborts [where args = "[''src'']" and opts = noOptions
      and st = "\<lparr>isClean = False, conflicted = [], staged = [''a.ts'']\<rparr>"
      and w = "(readyWorld [Response [(featCommit, accepts)]])
          \<lparr>gitStatus := Inr \<lparr>isClean = False, conflicted = [], staged = [''a.ts'']\<rparr>\<rparr>"]
  by (simp add: run_defs example_defs)

subsection \<open>C9: the post-commit stage\<close>

text \<open>
  Claim C9, as amended. The pull-request flow runs only in a run with at least one
  commit applied and without \<open>--force\<close> and \<open>--yes\<close>, and it does run when the
  post-commit stage is reached with these conditions. The push runs only when
  requested, and when the stage is reached with \<open>--push\<close> it does run, whatever the
  number of commits, unless the pull-request flow has failed before it.
\<close>

theorem post_commit_stage:
  "(HandlePullRequest \<in> set (trace (snd (main args opts w))) \<longrightarrow>
      0 < commitCount (snd (main args opts w)) \<and> \<not> force opts \<and> \<not> yes opts)
   \<and> (HandlePush \<in> set (trace (snd (main args opts w))) \<longrightarrow> push opts)
   \<and> (0 < commitCount s \<and> \<not> force opts \<and> \<not> yes opts \<longrightarrow>
        HandlePullRequest \<in> set (trace (finalState (postCommit opts w s))))
   \<and> (push opts
        \<and> (commitCount s = 0 \<or> force opts \<or> yes opts \<or> pullRequestError w = None) \<longrightarrow>
        HandlePush \<in> set (trace (finalState (postCommit opts w s))))"
  using main_post_commit_events[of args opts w]
  by (simp add: postCommit_cases)

theorem post_commit_stage_witness:
  "main [] (noOptions\<lparr>push := True\<rparr>) (readyWorld [Response [(featCommit, accepts)]])
     = (0, \<lparr>trace = [GitCheckIsRepo, GitStatus [], GitDiffSummary [], GitDiff [], StreamObject,
                    AskShipIt ''feat(cli): add the push flag'', GitAdd [''index.ts''],
                    GitCommit ''feat(cli): add the push flag'' [''index.ts''],
                    HandlePullRequest, HandlePush],
           repoCommits = [(''feat(cli): add the push flag'', [''index.ts''])],
           commitCount = 1\<rparr>)
   \<and> main [] (noOptions\<lparr>push := True, force := True\<rparr>) (readyWorld [Response [(featCommit, accepts)]])
     = (0, \<lparr>trace = [GitCheckIsRepo, GitStatus [], GitDiffSummary [], GitDiff [], StreamObject,
                    AskShipIt ''feat(cli): add the push flag'', GitAdd [''index.ts''],
                    GitCommit ''feat(cli): add the push flag'' [''index.ts''],
                    HandlePush],
           repoCommits = [(''feat(cli): add the push flag'', [''index.ts''])],
           commitCount = 1\<rparr>)
   \<and> push (noOptions\<lparr>push := True\<rparr>) \<and> \<not> force (noOptions\<lparr>push := True\<rparr>)
   \<and> \<not> yes (noOptions\<lparr>push := True\<rparr>)"
  using post_commit_stage [where args = "[]" and opts = "noOptions\<lparr>push := True\<rparr>"
      and w = "readyWorld [Response [(featCommit, accepts)]]"
      and s = "\<lparr>trace = [], repoCommits = [(''feat(cli): add the push flag'', [''index.ts''])],
               commitCount = 1\<rparr>"]
  by (simp add: run_defs example_defs)

text \<open>
  Claim C9 as stated fails for the push: a run whose only proposal is declined, with
  \<open>--push\<close>, applies no commit and still calls the push helper.
\<close>

theorem push_without_commit_counterexample:
  "main [] (noOptions\<lparr>push := True\<rparr>) (readyWorld [Response [(fixCommit, declines)]])
     = (0, \<lparr>trace = [GitCheckIsRepo, GitStatus [], GitDiffSummary [], GitDiff [], StreamObject,
                    AskShipIt ''fix: handle an empty diff'', HandlePush],
           repoCommits = [], commitCount = 0\<rparr>)
   \<and> commitCount (snd (main [] (noOptions\<lparr>push := True\<rparr>)
         (readyWorld [Response [(fixCommit, declines)]]))) = 0
   \<and> HandlePush \<in> set (trace (snd (main [] (noOptions\<lparr>push := True\<rparr>)
         (readyWorld [Response [(fixCommit, declines)]]))))"
  by (simp add: run_defs example_defs)

end
